theory Spec2Isabelle
  imports Main "HOL-Library.AList" "HOL-Library.Sublist"
begin

section \<open>Per-conversation time records (ChatTimeStorageManager)\<close>

text \<open>
  The persisted value under the storage key \<^verbatim>\<open>chatTimes\<close> is a JavaScript object
  \<^verbatim>\<open>{ conversationKey: { createTime, lastVisit, nodes: { nodeId: timestamp } } }\<close>.
  A JavaScript object with string keys is modelled as an association list in insertion
  order: reading \<^verbatim>\<open>o[k]\<close> is \<open>map_of\<close>, the assignment \<^verbatim>\<open>o[k] = v\<close> is
  \<open>AList.update\<close> (in place for a present key, appended for a new one) and
  \<^verbatim>\<open>delete o[k]\<close> is \<open>AList.delete\<close>. Timestamps are JavaScript numbers holding
  integers, \<^verbatim>\<open>null\<close> and a missing field are \<open>None\<close>.
\<close>

record conv_record =
  createTime :: "int option"
  lastVisit :: "int option"
  nodes :: "(string \<times> int) list option"

type_synonym chat_times = "(string \<times> conv_record) list"

text \<open>
  The backing store: the value under \<^verbatim>\<open>chatTimes\<close> (\<open>None\<close> when the key is absent)
  and the number of \<^verbatim>\<open>StorageAdapter.set\<close> calls made on it so far.
\<close>

record chat_store =
  chatTimes :: "chat_times option"
  setCalls :: nat

text \<open>JavaScript truthiness of a timestamp field: \<^verbatim>\<open>null\<close> and \<^verbatim>\<open>0\<close> are falsy.\<close>

definition truthy :: "int option \<Rightarrow> bool" where
  "truthy v = (case v of None \<Rightarrow> False | Some t \<Rightarrow> t \<noteq> 0)"

definition getAllRecords :: "chat_store \<Rightarrow> chat_times" where
  "getAllRecords s = (case chatTimes s of None \<Rightarrow> [] | Some d \<Rightarrow> d)"

definition StorageAdapter_set :: "chat_times \<Rightarrow> chat_store \<Rightarrow> chat_store" where
  "StorageAdapter_set v s = s\<lparr>chatTimes := Some v, setCalls := setCalls s + 1\<rparr>"

definition getByConversation :: "string \<Rightarrow> chat_store \<Rightarrow> conv_record" where
  "getByConversation conversationKey s =
     (if conversationKey = [] then \<lparr>createTime = None, lastVisit = None, nodes = Some []\<rparr>
      else case map_of (getAllRecords s) conversationKey of
             None \<Rightarrow> \<lparr>createTime = None, lastVisit = None, nodes = Some []\<rparr>
           | Some r \<Rightarrow> r)"

text \<open>\<^verbatim>\<open>updateLastVisit(conversationKey)\<close>; \<open>now\<close> is the value of \<^verbatim>\<open>Date.now()\<close>.\<close>

definition updateLastVisit :: "string \<Rightarrow> int \<Rightarrow> chat_store \<Rightarrow> bool \<times> chat_store" where
  "updateLastVisit conversationKey now s =
     (if conversationKey = [] then (False, s)
      else let all = getAllRecords s in
        case map_of all conversationKey of
          None \<Rightarrow> (False, s)
        | Some r \<Rightarrow>
            (True, StorageAdapter_set
                     (AList.update conversationKey (r\<lparr>lastVisit := Some now\<rparr>) all) s))"

text \<open>
  The temporary-id test of \<^verbatim>\<open>cleanupTempIds\<close> is the regular expression
  \<^verbatim>\<open>/^[a-z]+-\d+$/i\<close>: one or more ASCII letters of either case, a hyphen, one or
  more ASCII digits, and nothing else. A letter is never a hyphen, so the greedy letter
  run cannot be shortened by backtracking and the match is decided by one scan.
\<close>

definition isAsciiLetter :: "char \<Rightarrow> bool" where
  "isAsciiLetter c =
     (let n = (of_char c :: nat) in (65 \<le> n \<and> n \<le> 90) \<or> (97 \<le> n \<and> n \<le> 122))"

definition isDigit :: "char \<Rightarrow> bool" where
  "isDigit c = (let n = (of_char c :: nat) in 48 \<le> n \<and> n \<le> 57)"

definition isTempId :: "string \<Rightarrow> bool" where
  "isTempId nodeId =
     (takeWhile isAsciiLetter nodeId \<noteq> [] \<and>
      (case dropWhile isAsciiLetter nodeId of
         [] \<Rightarrow> False
       | c # ds \<Rightarrow> c = CHR ''-'' \<and> ds \<noteq> [] \<and> list_all isDigit ds))"

text \<open>
  The loop \<^verbatim>\<open>for (const nodeId of Object.keys(nodes)) if (isTempId(nodeId))
  { delete nodes[nodeId]; cleanedCount++ }\<close> as a fold over the keys.
\<close>

definition cleanupStep ::
  "(string \<times> int) list \<times> nat \<Rightarrow> string \<Rightarrow> (string \<times> int) list \<times> nat" where
  "cleanupStep acc nodeId =
     (if isTempId nodeId then (AList.delete nodeId (fst acc), snd acc + 1) else acc)"

definition cleanupTempIds :: "string \<Rightarrow> chat_store \<Rightarrow> nat \<times> chat_store" where
  "cleanupTempIds conversationKey s =
     (if conversationKey = [] then (0, s)
      else let all = getAllRecords s in
        case map_of all conversationKey of
          None \<Rightarrow> (0, s)
        | Some r \<Rightarrow>
            (case nodes r of
               None \<Rightarrow> (0, s)
             | Some ns \<Rightarrow>
                 let res = foldl cleanupStep (ns, 0) (map fst ns);
                     cleanedCount = snd res
                 in if cleanedCount > 0
                    then (cleanedCount,
                          StorageAdapter_set
                            (AList.update conversationKey (r\<lparr>nodes := Some (fst res)\<rparr>) all) s)
                    else (cleanedCount, s)))"

text \<open>
  \<^verbatim>\<open>setCreateTime(conversationKey, timestamp = Date.now())\<close>. The guard
  \<^verbatim>\<open>if (all[conversationKey].createTime) return false\<close> is a truthiness test.
\<close>

definition setCreateTime :: "string \<Rightarrow> int \<Rightarrow> chat_store \<Rightarrow> bool \<times> chat_store" where
  "setCreateTime conversationKey timestamp s =
     (if conversationKey = [] then (False, s)
      else let all = getAllRecords s in
        case map_of all conversationKey of
          None \<Rightarrow>
            (True, StorageAdapter_set
                     (AList.update conversationKey
                        \<lparr>createTime = Some timestamp, lastVisit = Some timestamp,
                         nodes = Some []\<rparr> all) s)
        | Some r \<Rightarrow>
            if truthy (createTime r) then (False, s)
            else (True, StorageAdapter_set
                          (AList.update conversationKey (r\<lparr>createTime := Some timestamp\<rparr>) all)
                          s))"

text \<open>
  \<^verbatim>\<open>batchSetNodeTimes(conversationKey, nodes)\<close>: each element of \<open>nodes\<close> is
  \<^verbatim>\<open>{ nodeId, timestamp }\<close>, either of which may be missing; a node id that already
  has a time is skipped.
\<close>

definition batchStep ::
  "int \<Rightarrow> (string \<times> int) list \<times> nat \<Rightarrow> string option \<times> int option
     \<Rightarrow> (string \<times> int) list \<times> nat" where
  "batchStep now acc n =
     (case fst n of
        None \<Rightarrow> acc
      | Some nodeId \<Rightarrow>
          if map_of (fst acc) nodeId = None
          then (AList.update nodeId
                  (case snd n of None \<Rightarrow> now | Some t \<Rightarrow> if t = 0 then now else t) (fst acc),
                snd acc + 1)
          else acc)"

definition batchSetNodeTimes ::
  "string \<Rightarrow> (string option \<times> int option) list \<Rightarrow> int \<Rightarrow> chat_store \<Rightarrow> nat \<times> chat_store" where
  "batchSetNodeTimes conversationKey ns now s =
     (if conversationKey = [] \<or> ns = [] then (0, s)
      else let all = getAllRecords s;
               r0 = (case map_of all conversationKey of
                       None \<Rightarrow> \<lparr>createTime = None, lastVisit = Some now, nodes = Some []\<rparr>
                     | Some r \<Rightarrow> r);
               old = (case nodes r0 of None \<Rightarrow> [] | Some m \<Rightarrow> m);
               res = foldl (batchStep now) (old, 0) ns;
               addedCount = snd res;
               r1 = r0\<lparr>nodes := Some (fst res), lastVisit := Some now\<rparr>
           in if addedCount > 0
              then (addedCount, StorageAdapter_set (AList.update conversationKey r1 all) s)
              else (addedCount, s))"

text \<open>\<^verbatim>\<open>migrateNodeId(conversationKey, tempId, realId)\<close>.\<close>

definition migrateNodeId ::
  "string \<Rightarrow> string \<Rightarrow> string \<Rightarrow> chat_store \<Rightarrow> bool \<times> chat_store" where
  "migrateNodeId conversationKey tempId realId s =
     (if conversationKey = [] \<or> tempId = [] \<or> realId = [] then (False, s)
      else let all = getAllRecords s in
        case map_of all conversationKey of
          None \<Rightarrow> (False, s)
        | Some r \<Rightarrow>
            (case nodes r of
               None \<Rightarrow> (False, s)
             | Some ns \<Rightarrow>
                 (case map_of ns tempId of
                    None \<Rightarrow> (False, s)
                  | Some timestamp \<Rightarrow>
                      (True,
                       StorageAdapter_set
                         (AList.update conversationKey
                            (r\<lparr>nodes := Some (AList.update realId timestamp
                                                 (AList.delete tempId ns))\<rparr>) all) s))))"

text \<open>
  \<^verbatim>\<open>cleanup(maxInactiveDays = 30)\<close>: the loop over \<^verbatim>\<open>Object.entries(all)\<close> deletes
  every conversation with a falsy \<open>lastVisit\<close> or one older than the maximum age.
\<close>

definition inactive :: "int \<Rightarrow> int \<Rightarrow> conv_record \<Rightarrow> bool" where
  "inactive maxAge now d =
     (case lastVisit d of None \<Rightarrow> True | Some lv \<Rightarrow> lv = 0 \<or> now - lv > maxAge)"

definition sweepStep ::
  "int \<Rightarrow> int \<Rightarrow> chat_times \<times> nat \<Rightarrow> string \<times> conv_record \<Rightarrow> chat_times \<times> nat" where
  "sweepStep maxAge now acc e =
     (if inactive maxAge now (snd e) then (AList.delete (fst e) (fst acc), snd acc + 1)
      else acc)"

definition cleanup :: "int \<Rightarrow> int \<Rightarrow> chat_store \<Rightarrow> nat \<times> chat_store" where
  "cleanup maxInactiveDays now s =
     (let all = getAllRecords s;
          maxAge = maxInactiveDays * 24 * 60 * 60 * 1000;
          res = foldl (sweepStep maxAge now) (all, 0) all;
          cleanedCount = snd res
      in if cleanedCount > 0 then (cleanedCount, StorageAdapter_set (fst res) s)
         else (cleanedCount, s))"

text \<open>The statement run at script load: \<^verbatim>\<open>ChatTimeStorageManager.cleanup(30)\<close>.\<close>

definition loadCleanup :: "int \<Rightarrow> chat_store \<Rightarrow> chat_store" where
  "loadCleanup now s = snd (cleanup 30 now s)"

text \<open>
  The storage effect of \<^verbatim>\<open>ChatTimeRecorder.init\<close>: nothing unless the platform enables
  the feature and the conversation key is non-empty; then \<open>lastVisit\<close> is refreshed
  and, on a platform with stable node ids, the temporary ids are cleaned.
\<close>

record features =
  chatTimesEnabled :: bool
  stableNodeId :: bool

definition init :: "features \<Rightarrow> string \<Rightarrow> int \<Rightarrow> chat_store \<Rightarrow> chat_store" where
  "init f conversationKey now s =
     (if \<not> chatTimesEnabled f then s
      else if conversationKey = [] then s
      else let s1 = snd (updateLastVisit conversationKey now s)
           in if stableNodeId f then snd (cleanupTempIds conversationKey s1) else s1)"

text \<open>
  \<open>keepsEntries s s'\<close>: every conversation record of the store \<open>s\<close> is still in
  \<open>s'\<close>, and so is every per-turn entry of it, with the timestamp it had.
\<close>

definition nodesOf :: "conv_record \<Rightarrow> (string \<times> int) list" where
  "nodesOf r = (case nodes r of None \<Rightarrow> [] | Some m \<Rightarrow> m)"

definition keepsEntries :: "chat_store \<Rightarrow> chat_store \<Rightarrow> bool" where
  "keepsEntries s s' =
     list_all
       (\<lambda>e. case map_of (getAllRecords s') (fst e) of
               None \<Rightarrow> False
             | Some r' \<Rightarrow>
                 list_all (\<lambda>n. map_of (nodesOf r') (fst n) = map_of (nodesOf (snd e)) (fst n))
                   (nodesOf (snd e)))
       (getAllRecords s)"

section \<open>The star collection (StarStorageManager)\<close>

text \<open>
  The value under \<^verbatim>\<open>chatTimelineStars\<close> is an array of star records, each with a
  \<open>key\<close> field; \<open>None\<close> stands for a missing or non-array value, which
  \<^verbatim>\<open>getAll\<close> reads as the empty array. A record is its key and its other fields.
\<close>

record 'a star_item =
  key :: string
  details :: 'a

definition StarStorageManager_getAll :: "'a star_item list option \<Rightarrow> 'a star_item list" where
  "StarStorageManager_getAll data = (case data of None \<Rightarrow> [] | Some items \<Rightarrow> items)"

text \<open>\<^verbatim>\<open>Array.prototype.findIndex\<close>: the first index whose element satisfies the test, or -1.\<close>

fun findIndex :: "('a \<Rightarrow> bool) \<Rightarrow> 'a list \<Rightarrow> int" where
  "findIndex P [] = - 1"
| "findIndex P (x # xs) =
     (if P x then 0 else (let i = findIndex P xs in if i < 0 then - 1 else i + 1))"

text \<open>
  \<^verbatim>\<open>add(item)\<close>: nothing happens for a null item or a falsy (empty) key; otherwise
  the record with the same key is replaced in place, or the item is appended, and the
  array is written back.
\<close>

definition putItem :: "'a star_item \<Rightarrow> 'a star_item list \<Rightarrow> 'a star_item list" where
  "putItem item items =
     (let existingIndex = findIndex (\<lambda>i. key i = key item) items
      in if existingIndex \<ge> 0 then items[nat existingIndex := item] else items @ [item])"

definition StarStorageManager_add ::
  "'a star_item option \<Rightarrow> 'a star_item list option \<Rightarrow> 'a star_item list option" where
  "StarStorageManager_add item data =
     (case item of
        None \<Rightarrow> data
      | Some it \<Rightarrow>
          if key it = [] then data
          else Some (putItem it (StarStorageManager_getAll data)))"

text \<open>A finite sequence of \<^verbatim>\<open>add\<close> calls, one per item, in order.\<close>

definition upsertAll ::
  "'a star_item list \<Rightarrow> 'a star_item list option \<Rightarrow> 'a star_item list option" where
  "upsertAll its data = foldl (\<lambda>d it. StarStorageManager_add (Some it) d) data its"

section \<open>Looking a stored key up among the current turns\<close>

text \<open>
  A stored key is what a star or pin record holds in \<^verbatim>\<open>nodeId\<close> (or, in old data,
  \<^verbatim>\<open>index\<close>): a string, a number, \<^verbatim>\<open>null\<close> or \<^verbatim>\<open>undefined\<close>. Numbers are the
  integers that indices are.
\<close>

datatype stored_key = KNull | KUndefined | KNum int | KStr string

text \<open>Decimal digits of a natural number, and \<^verbatim>\<open>String(n)\<close> for an integer.\<close>

definition digitChar :: "nat \<Rightarrow> char" where
  "digitChar d = ''0123456789'' ! d"

fun showNat :: "nat \<Rightarrow> string" where
  "showNat n =
     (if n < 10 then [digitChar n] else showNat (n div 10) @ [digitChar (n mod 10)])"

declare showNat.simps [simp del]

definition showInt :: "int \<Rightarrow> string" where
  "showInt i = (if i < 0 then CHR ''-'' # showNat (nat (- i)) else showNat (nat i))"

text \<open>The conversion a template literal \<^verbatim>\<open>`${k}`\<close> applies to a stored key.\<close>

definition templateString :: "stored_key \<Rightarrow> string" where
  "templateString k =
     (case k of KNull \<Rightarrow> ''null'' | KUndefined \<Rightarrow> ''undefined''
      | KNum n \<Rightarrow> showInt n | KStr s \<Rightarrow> s)"

text \<open>
  Calling \<^verbatim>\<open>markerMap.get\<close> on an undefined map throws; the lookups return the
  marker, \<^verbatim>\<open>null\<close> (\<open>None\<close>) or that error.
\<close>

datatype error = TypeError

definition Doubao_generateTurnIdFromIndex :: "stored_key \<Rightarrow> string" where
  "Doubao_generateTurnIdFromIndex identifier = ''doubao-'' @ templateString identifier"

definition Doubao_findMarkerByStoredIndex ::
  "stored_key \<Rightarrow> 'm list \<Rightarrow> (string \<Rightarrow> 'm option) option \<Rightarrow> error + 'm option" where
  "Doubao_findMarkerByStoredIndex storedKey markers markerMap =
     (if storedKey = KNull \<or> storedKey = KUndefined then Inr None
      else let turnId = ''doubao-'' @ templateString storedKey in
        case markerMap of
          None \<Rightarrow> Inl TypeError
        | Some mm \<Rightarrow>
            (case mm turnId of
               Some marker \<Rightarrow> Inr (Some marker)
             | None \<Rightarrow>
                 (case storedKey of
                    KNum n \<Rightarrow>
                      if n \<ge> 0 \<and> n < int (length markers) then Inr (Some (markers ! nat n))
                      else Inr None
                  | _ \<Rightarrow> Inr None)))"

text \<open>
  The timeline manager as \<^verbatim>\<open>findMarkerByNodeKey\<close> reads it: an adapter that may be
  missing and whose two methods are optional, the array of markers, and the map from
  turn ids to markers.
\<close>

record 'm adapter =
  findMarkerByStoredIndex ::
    "(stored_key \<Rightarrow> 'm list \<Rightarrow> (string \<Rightarrow> 'm option) option \<Rightarrow> error + 'm option) option"
  generateTurnIdFromIndex :: "(stored_key \<Rightarrow> string) option"

record 'm timeline_manager =
  adapter :: "'m adapter option"
  markers :: "'m list"
  markerMap :: "(string \<Rightarrow> 'm option) option"

definition DoubaoAdapter :: "'m adapter" where
  "DoubaoAdapter =
     \<lparr>findMarkerByStoredIndex = Some Doubao_findMarkerByStoredIndex,
      generateTurnIdFromIndex = Some Doubao_generateTurnIdFromIndex\<rparr>"

definition findMarkerByNodeKey :: "'m timeline_manager \<Rightarrow> stored_key \<Rightarrow> error + 'm option" where
  "findMarkerByNodeKey tm nodeKey =
     (if nodeKey = KNull \<or> nodeKey = KUndefined then Inr None
      else
        case (case adapter tm of None \<Rightarrow> None | Some a \<Rightarrow> findMarkerByStoredIndex a) of
          Some f \<Rightarrow> f nodeKey (markers tm) (markerMap tm)
        | None \<Rightarrow>
            (case (case (case adapter tm of None \<Rightarrow> None | Some a \<Rightarrow> generateTurnIdFromIndex a) of
                     None \<Rightarrow> None
                   | Some gen \<Rightarrow>
                       (case markerMap tm of None \<Rightarrow> None | Some mm \<Rightarrow> mm (gen nodeKey))) of
               Some marker \<Rightarrow> Inr (Some marker)
             | None \<Rightarrow>
                 (case nodeKey of
                    KNum n \<Rightarrow>
                      if n \<ge> 0 \<and> n < int (length (markers tm))
                      then Inr (Some (markers tm ! nat n))
                      else Inr None
                  | _ \<Rightarrow> Inr None)))"

section \<open>Polling for the real node id (ChatTimeRecorder)\<close>

text \<open>
  \<^verbatim>\<open>_pendingRecord\<close> holds the index and the temporary id of the turn recorded last.
  \<^verbatim>\<open>_pollForRealId\<close> arms a 500 ms timer; what the callback finds when the timer fires
  is a \<open>timer_tick\<close>: what the handlers that ran in the meantime (\<^verbatim>\<open>reset\<close>,
  \<^verbatim>\<open>destroy\<close>, another recording) made of \<^verbatim>\<open>_pendingRecord\<close>, and the user-turn
  elements then in the document. The poll state also counts the timers armed, adds up
  the delays, and lists the \<^verbatim>\<open>_migrateNodeId(tempId, realId)\<close> calls issued.
\<close>

record pending_record =
  index :: nat
  tempId :: string

record 'e timer_tick =
  interference :: "pending_record option \<Rightarrow> pending_record option"
  userTurnElements :: "'e list"

record poll_state =
  pendingRecord :: "pending_record option"
  migrations :: "(string \<times> string) list"
  timeouts :: nat
  elapsed :: nat

text \<open>\<^verbatim>\<open>String.prototype.endsWith\<close>.\<close>

definition endsWith :: "string \<Rightarrow> string \<Rightarrow> bool" where
  "endsWith s suf = (length suf \<le> length s \<and> drop (length s - length suf) s = suf)"

text \<open>
  \<^verbatim>\<open>_pollForRealId(adapter, expectedIndex, retryCount = 0)\<close>; \<open>env n\<close> is the tick
  found by the timer armed with retry count \<open>n\<close>.
\<close>

function pollForRealId ::
  "('e \<Rightarrow> nat \<Rightarrow> string) \<Rightarrow> (nat \<Rightarrow> 'e timer_tick) \<Rightarrow> nat \<Rightarrow> nat \<Rightarrow> poll_state \<Rightarrow> poll_state"
  where
  "pollForRealId generateTurnId env expectedIndex retryCount s =
     (if pendingRecord s = None \<or> retryCount > 10 then s\<lparr>pendingRecord := None\<rparr>
      else
        let s1 = s\<lparr>timeouts := timeouts s + 1, elapsed := elapsed s + 500\<rparr>;
            tick = env retryCount;
            s2 = s1\<lparr>pendingRecord := interference tick (pendingRecord s1)\<rparr>
        in case pendingRecord s2 of
             None \<Rightarrow> s2
           | Some pending \<Rightarrow>
               if expectedIndex < length (userTurnElements tick) then
                 let nodeId = generateTurnId (userTurnElements tick ! expectedIndex) expectedIndex;
                     hasRealId = \<not> endsWith nodeId (CHR ''-'' # showNat expectedIndex)
                 in if hasRealId
                    then s2\<lparr>migrations := migrations s2 @ [(tempId pending, nodeId)],
                            pendingRecord := None\<rparr>
                    else pollForRealId generateTurnId env expectedIndex (retryCount + 1) s2
               else s2\<lparr>pendingRecord := None\<rparr>)"
  by pat_completeness auto
termination
  by (relation "measure (\<lambda>(g, env, i, retryCount, s). 11 - retryCount)") auto

declare pollForRealId.simps [simp del]

text \<open>
  The storage effect of the issued \<^verbatim>\<open>_migrateNodeId\<close> calls on the conversation's time
  record, in the order issued.
\<close>

definition runMigrations :: "string \<Rightarrow> (string \<times> string) list \<Rightarrow> chat_store \<Rightarrow> chat_store" where
  "runMigrations conversationKey ms st =
     foldl (\<lambda>st m. if conversationKey = [] then st
                    else snd (migrateNodeId conversationKey (fst m) (snd m) st)) st ms"

section \<open>The conversation container (ContainerFinder)\<close>

text \<open>
  Modelled from the spec: \<^verbatim>\<open>ContainerFinder.findConversationContainer\<close> is called by
  every adapter (\<^verbatim>\<open>DeepSeekAdapter.findConversationContainer\<close> passes it the adapter's
  user-message selector) but its source is not among the files. The specification
  gives the algorithm: collect the ancestor path, root to element, of every matched
  element; take the longest common prefix of all paths; the last node of that prefix
  is the container; no match, no container; a single match has its parent as container.

  A document is the list of the element trees below the document node. A node is named
  by its position, the child indices leading to it from the document node; \<open>[]\<close> is
  the document node, which no selector matches. An ancestor of a node is a node whose
  position is a proper prefix of the node's.
\<close>

datatype 'a element = Element 'a "'a element list"

type_synonym node = "nat list"

text \<open>The positions of the elements that satisfy the selector, in document order.\<close>

fun matchesIn :: "('a \<Rightarrow> bool) \<Rightarrow> 'a element \<Rightarrow> node list"
  and matchesInList :: "('a \<Rightarrow> bool) \<Rightarrow> nat \<Rightarrow> 'a element list \<Rightarrow> node list" where
  "matchesIn sel (Element a cs) = (if sel a then [[]] else []) @ matchesInList sel 0 cs"
| "matchesInList sel i [] = []"
| "matchesInList sel i (c # cs) =
     map ((#) i) (matchesIn sel c) @ matchesInList sel (Suc i) cs"

definition querySelectorAll :: "('a \<Rightarrow> bool) \<Rightarrow> 'a element list \<Rightarrow> node list" where
  "querySelectorAll sel doc = matchesInList sel 0 doc"

text \<open>The ancestors of a node from the document node down to its parent.\<close>

definition ancestorPath :: "node \<Rightarrow> node list" where
  "ancestorPath p = butlast (prefixes p)"

definition isAncestorOf :: "node \<Rightarrow> node \<Rightarrow> bool" where
  "isAncestorOf a m = strict_prefix a m"

definition findConversationContainer :: "('a \<Rightarrow> bool) \<Rightarrow> 'a element list \<Rightarrow> node option" where
  "findConversationContainer messageSelector doc =
     (case map ancestorPath (querySelectorAll messageSelector doc) of
        [] \<Rightarrow> None
      | p # ps \<Rightarrow>
          (let common = foldl longest_common_prefix p ps
           in if common = [] then None else Some (last common)))"

section \<open>Storage migrations at script load (StorageAdapter, StarPinStorage)\<close>

text \<open>
  Stored values are JSON values; numbers are the integers that timestamps and indices
  are. A property that is missing reads as \<^verbatim>\<open>undefined\<close>, here \<open>None\<close>.
\<close>

datatype jsval =
  JNull | JBool bool | JNum int | JStr string | JArr "jsval list" | JObj "(string \<times> jsval) list"

text \<open>
  The two areas of \<^verbatim>\<open>chrome.storage\<close> (\<open>syncArea\<close> is \<open>None\<close> when
  \<^verbatim>\<open>chrome.storage.sync\<close> does not exist), whether \<^verbatim>\<open>chrome.storage.local\<close> is
  available at all, and the storage calls made so far, in order.
\<close>

datatype storage_call =
  SyncGetAll | SyncClear | LocalGetAll | LocalGet "string list" | LocalSet "string list"
  | LocalRemove "string list"

record browser_storage =
  chromeStorage :: bool
  syncArea :: "(string \<times> jsval) list option"
  localArea :: "(string \<times> jsval) list"
  apiCalls :: "storage_call list"

definition logCall :: "storage_call \<Rightarrow> browser_storage \<Rightarrow> browser_storage" where
  "logCall c b = b\<lparr>apiCalls := apiCalls b @ [c]\<rparr>"

text \<open>\<^verbatim>\<open>chrome.storage.local.set(items)\<close>, \<^verbatim>\<open>.remove(keys)\<close> and \<^verbatim>\<open>chrome.storage.sync.clear()\<close>.\<close>

definition localSet :: "(string \<times> jsval) list \<Rightarrow> browser_storage \<Rightarrow> browser_storage" where
  "localSet items b =
     logCall (LocalSet (map fst items))
       (b\<lparr>localArea := foldl (\<lambda>l e. AList.update (fst e) (snd e) l) (localArea b) items\<rparr>)"

definition localRemove :: "string list \<Rightarrow> browser_storage \<Rightarrow> browser_storage" where
  "localRemove keys b =
     logCall (LocalRemove keys)
       (b\<lparr>localArea := filter (\<lambda>e. fst e \<notin> set keys) (localArea b)\<rparr>)"

definition syncClear :: "browser_storage \<Rightarrow> browser_storage" where
  "syncClear b = logCall SyncClear (b\<lparr>syncArea := Some []\<rparr>)"

text \<open>JavaScript truthiness, \<^verbatim>\<open>typeof v === 'object'\<close> for a truthy value, \<^verbatim>\<open>startsWith\<close>.\<close>

definition jsTruthy :: "jsval option \<Rightarrow> bool" where
  "jsTruthy v =
     (case v of
        None \<Rightarrow> False
      | Some JNull \<Rightarrow> False
      | Some (JBool b) \<Rightarrow> b
      | Some (JNum n) \<Rightarrow> n \<noteq> 0
      | Some (JStr s) \<Rightarrow> s \<noteq> []
      | Some (JArr xs) \<Rightarrow> True
      | Some (JObj fs) \<Rightarrow> True)"

definition isObject :: "jsval \<Rightarrow> bool" where
  "isObject v = (case v of JArr xs \<Rightarrow> True | JObj fs \<Rightarrow> True | _ \<Rightarrow> False)"

definition startsWith :: "string \<Rightarrow> string \<Rightarrow> bool" where
  "startsWith s p = (take (length p) s = p)"

text \<open>
  The object literal \<^verbatim>\<open>{ key, ...value }\<close>: the \<open>key\<close> property first, then the
  own properties of the value, a later property of the same name replacing the value
  of an earlier one. The own properties of an array are its indices.
\<close>

definition ownProps :: "jsval \<Rightarrow> (string \<times> jsval) list" where
  "ownProps v =
     (case v of
        JObj fs \<Rightarrow> fs
      | JArr xs \<Rightarrow> zip (map showNat [0..<length xs]) xs
      | _ \<Rightarrow> [])"

definition withKey :: "string \<Rightarrow> jsval \<Rightarrow> jsval" where
  "withKey k v =
     JObj (foldl (\<lambda>l e. AList.update (fst e) (snd e) l) [(''key'', JStr k)] (ownProps v))"

subsection \<open>The loader with the key-rename migration\<close>

text \<open>\<^verbatim>\<open>StorageAdapter.migrateLocalKeys\<close>: \<^verbatim>\<open>biwhckdj\<close> becomes \<^verbatim>\<open>prompts\<close>.\<close>

definition migrateLocalKeys :: "browser_storage \<Rightarrow> browser_storage" where
  "migrateLocalKeys b =
     (if \<not> chromeStorage b then b
      else
        let b1 = logCall (LocalGet [''biwhckdj'', ''prompts'']) b;
            old = map_of (localArea b1) ''biwhckdj'';
            new = map_of (localArea b1) ''prompts''
        in case old of
             None \<Rightarrow> b1
           | Some v \<Rightarrow>
               if jsTruthy old \<and> \<not> jsTruthy new
               then localRemove [''biwhckdj''] (localSet [(''prompts'', v)] b1)
               else if jsTruthy old \<and> jsTruthy new then localRemove [''biwhckdj''] b1
               else b1)"

text \<open>
  The part of \<^verbatim>\<open>StorageAdapter.migrateFromSyncToLocal\<close> inside its \<^verbatim>\<open>try\<close> block: read
  the synced scope, gather the per-record star and pin entries into arrays, write
  everything to the local scope, clear the synced scope.
\<close>

definition syncToLocal :: "browser_storage \<Rightarrow> browser_storage" where
  "syncToLocal b =
     (case syncArea b of
        None \<Rightarrow> b
      | Some syncData \<Rightarrow>
          let b1 = logCall SyncGetAll b in
          if syncData = [] then b1
          else
            let starItems =
                  map (\<lambda>e. withKey (fst e) (snd e))
                    (filter (\<lambda>e. startsWith (fst e) ''chatTimelineStar:'' \<and> isObject (snd e))
                       syncData);
                pinItems =
                  map (\<lambda>e. withKey (fst e) (snd e))
                    (filter (\<lambda>e. \<not> startsWith (fst e) ''chatTimelineStar:''
                                 \<and> startsWith (fst e) ''chatTimelinePin:'' \<and> isObject (snd e))
                       syncData);
                otherData =
                  filter (\<lambda>e. \<not> startsWith (fst e) ''chatTimelineStar:''
                               \<and> \<not> startsWith (fst e) ''chatTimelinePin:'') syncData;
                withStars =
                  (if starItems \<noteq> [] then AList.update ''chatTimelineStars'' (JArr starItems) otherData
                   else otherData);
                newLocalData =
                  (if pinItems \<noteq> [] then AList.update ''chatTimelinePins'' (JArr pinItems) withStars
                   else withStars)
            in syncClear (localSet newLocalData b1))"

text \<open>
  \<^verbatim>\<open>StorageAdapter.migrateFromSyncToLocal\<close>, run once at script load: it awaits
  \<^verbatim>\<open>migrateLocalKeys\<close> before it looks at the synced scope.
\<close>

definition migrateFromSyncToLocal :: "browser_storage \<Rightarrow> browser_storage" where
  "migrateFromSyncToLocal b =
     (if \<not> chromeStorage b then b else syncToLocal (migrateLocalKeys b))"


subsection \<open>The loader with the record-shape migration\<close>

text \<open>
  The other \<^verbatim>\<open>StorageAdapter.migrateFromSyncToLocal\<close>: it copies the synced scope to the
  local scope as it is and clears the synced scope.
\<close>

definition migrateFromSyncToLocal_copy :: "browser_storage \<Rightarrow> browser_storage" where
  "migrateFromSyncToLocal_copy b =
     (if \<not> chromeStorage b then b
      else
        case syncArea b of
          None \<Rightarrow> b
        | Some syncData \<Rightarrow>
            let b1 = logCall SyncGetAll b in
            if syncData = [] then b1 else syncClear (localSet syncData b1))"

text \<open>
  Property access \<^verbatim>\<open>item.name\<close> on a value that may be undefined, \<^verbatim>\<open>a ?? b\<close>, the
  string a template literal makes of a value, and \<^verbatim>\<open>StarPinStorage._makeId\<close>.
\<close>

definition getProp :: "jsval option \<Rightarrow> string \<Rightarrow> jsval option" where
  "getProp v name = (case v of Some (JObj fs) \<Rightarrow> map_of fs name | _ \<Rightarrow> None)"

definition coalesce :: "jsval option \<Rightarrow> jsval option \<Rightarrow> jsval option" where
  "coalesce x y = (if x = None \<or> x = Some JNull then y else x)"

fun joinWith :: "string \<Rightarrow> string list \<Rightarrow> string" where
  "joinWith sep [] = []"
| "joinWith sep [x] = x"
| "joinWith sep (x # y # ys) = x @ sep @ joinWith sep (y # ys)"

fun jsString :: "jsval \<Rightarrow> string" where
  "jsString JNull = ''null''"
| "jsString (JBool v) = (if v then ''true'' else ''false'')"
| "jsString (JNum n) = showInt n"
| "jsString (JStr s) = s"
| "jsString (JArr xs) = joinWith '','' (map (\<lambda>x. if x = JNull then [] else jsString x) xs)"
| "jsString (JObj fs) = ''[object Object]''"

definition toStr :: "jsval option \<Rightarrow> string" where
  "toStr v = (case v of None \<Rightarrow> ''undefined'' | Some x \<Rightarrow> jsString x)"

definition makeId :: "jsval option \<Rightarrow> jsval option \<Rightarrow> string" where
  "makeId urlWithoutProtocol nodeKey = toStr urlWithoutProtocol @ '':'' @ toStr nodeKey"

definition itemId :: "jsval \<Rightarrow> string" where
  "itemId v =
     makeId (getProp (Some v) ''urlWithoutProtocol'')
       (coalesce (getProp (Some v) ''nodeId'') (getProp (Some v) ''index''))"

text \<open>A property of an object literal; one whose value is undefined is not stored.\<close>

definition objField :: "string \<Rightarrow> jsval option \<Rightarrow> (string \<times> jsval) list" where
  "objField name v = (case v of None \<Rightarrow> [] | Some x \<Rightarrow> [(name, x)])"

definition orElse :: "jsval option \<Rightarrow> jsval \<Rightarrow> jsval option" where
  "orElse v dflt = (if jsTruthy v then v else Some dflt)"

text \<open>
  One round of the \<^verbatim>\<open>starKeys.forEach\<close> loop of \<^verbatim>\<open>StarPinStorage.migrateFromLegacy\<close>
  (and, with \<open>isStar = False\<close>, of the \<^verbatim>\<open>pinKeys.forEach\<close> loop): the accumulator is
  the new array and the ids already in it.
\<close>

definition legacyStep ::
  "bool \<Rightarrow> int \<Rightarrow> (string \<times> jsval) list \<Rightarrow> jsval list \<times> string list \<Rightarrow> string
     \<Rightarrow> jsval list \<times> string list" where
  "legacyStep isStar now allItems acc k =
     (let item = map_of allItems k in
      if \<not> jsTruthy item \<or> \<not> jsTruthy (getProp item ''urlWithoutProtocol'') then acc
      else
        let nodeKey = coalesce (getProp item ''nodeId'') (getProp item ''index'');
            ident = makeId (getProp item ''urlWithoutProtocol'') nodeKey
        in if ident \<in> set (snd acc) then acc
           else
             (fst acc @
                [JObj (objField ''url'' (getProp item ''url'')
                       @ objField ''urlWithoutProtocol'' (getProp item ''urlWithoutProtocol'')
                       @ objField ''nodeId'' nodeKey
                       @ objField ''question'' (orElse (getProp item ''question'') (JStr []))
                       @ objField ''timestamp'' (orElse (getProp item ''timestamp'') (JNum now))
                       @ (if isStar
                          then objField ''folderId'' (orElse (getProp item ''folderId'') JNull)
                               @ [(''isFullChat'', JBool (nodeKey = Some (JNum (- 1))))]
                          else [(''isFullChat'', JBool False)]))],
              snd acc @ [ident]))"

text \<open>
  Moving one family: read the array under \<open>arrayKey\<close> (an absent or non-array value
  counts as empty), add the legacy items not yet in it, write it back. Reading a
  property of a \<^verbatim>\<open>null\<close> array element throws; the surrounding \<^verbatim>\<open>try\<close> then ends the
  migration where it is.
\<close>

definition arrayOf :: "jsval option \<Rightarrow> jsval list" where
  "arrayOf v = (case v of Some (JArr xs) \<Rightarrow> xs | _ \<Rightarrow> [])"

definition moveFamily ::
  "bool \<Rightarrow> string \<Rightarrow> int \<Rightarrow> (string \<times> jsval) list \<Rightarrow> string list \<Rightarrow> browser_storage
     \<Rightarrow> error + browser_storage" where
  "moveFamily isStar arrayKey now allItems legacyKeys b =
     (if legacyKeys = [] then Inr b
      else
        let b1 = logCall (LocalGet [arrayKey]) b;
            existing = arrayOf (map_of (localArea b1) arrayKey)
        in if JNull \<in> set existing then Inl TypeError
           else
             let res = foldl (legacyStep isStar now allItems) (existing, map itemId existing)
                         legacyKeys
             in Inr (localSet [(arrayKey, JArr (fst res))] b1))"

text \<open>
  \<^verbatim>\<open>StarPinStorage.migrateFromLegacy\<close>. An exception is caught and logged and the
  migration stops there: what was read and written before it stays as it is.
\<close>

definition migrateFromLegacy :: "int \<Rightarrow> browser_storage \<Rightarrow> browser_storage" where
  "migrateFromLegacy now b =
     (if \<not> chromeStorage b then b
      else
        let b1 = logCall LocalGetAll b;
            allItems = localArea b1;
            starKeys = filter (\<lambda>k. startsWith k ''chatTimelineStar:'') (map fst allItems);
            pinKeys = filter (\<lambda>k. startsWith k ''chatTimelinePin:'') (map fst allItems)
        in if starKeys = [] \<and> pinKeys = [] then b1
           else
             case moveFamily True ''aitStars'' now allItems starKeys b1 of
               Inl e \<Rightarrow> logCall (LocalGet [''aitStars'']) b1
             | Inr b2 \<Rightarrow>
                 (case moveFamily False ''aitPins'' now allItems pinKeys b2 of
                    Inl e \<Rightarrow> logCall (LocalGet [''aitPins'']) b2
                  | Inr b3 \<Rightarrow> localRemove (starKeys @ pinKeys) b3))"

text \<open>
  The statements run at script load by this loader:
  \<^verbatim>\<open>await StorageAdapter.migrateFromSyncToLocal(); await StarPinStorage.migrateFromLegacy()\<close>.
\<close>

definition loadLegacy :: "int \<Rightarrow> browser_storage \<Rightarrow> browser_storage" where
  "loadLegacy now b = migrateFromLegacy now (migrateFromSyncToLocal_copy b)"

section \<open>Properties of the time-record store\<close>

lemma map_of_update_other:
  "k' \<noteq> k \<Longrightarrow> map_of (AList.update k v al) k' = map_of al k'"
  by (simp add: update_conv')

lemma map_of_update_same: "map_of (AList.update k v al) k = Some v"
  by (simp add: update_conv')

lemma update_keys_present:
  "map_of al k = Some r \<Longrightarrow> map fst (AList.update k v al) = map fst al"
  by (simp add: update_keys map_of_eq_None_iff [symmetric])



subsection \<open>Temporary-id cleanup\<close>

lemma foldl_cleanupStep:
  "foldl cleanupStep (m, c) ks =
     (filter (\<lambda>p. \<not> (fst p \<in> set ks \<and> isTempId (fst p))) m, c + length (filter isTempId ks))"
proof (induction ks arbitrary: m c)
  case Nil
  then show ?case by simp
next
  case (Cons k ks)
  have step: "cleanupStep (m, c) k = (if isTempId k then (AList.delete k m, c + 1) else (m, c))"
    by (simp add: cleanupStep_def)
  show ?case
    by (auto simp: step Cons.IH AList.delete_eq intro!: filter_cong)
qed

lemma cleanup_loop:
  "foldl cleanupStep (ns, 0) (map fst ns) =
     (filter (\<lambda>p. \<not> isTempId (fst p)) ns, length (filter (\<lambda>p. isTempId (fst p)) ns))"
proof -
  have "filter (\<lambda>p. \<not> (fst p \<in> set (map fst ns) \<and> isTempId (fst p))) ns
          = filter (\<lambda>p. \<not> isTempId (fst p)) ns"
    by (rule filter_cong) auto
  moreover have "length (filter isTempId (map fst ns)) = length (filter (\<lambda>p. isTempId (fst p)) ns)"
    by (simp add: filter_map comp_def)
  ultimately show ?thesis by (simp add: foldl_cleanupStep)
qed

lemma filter_none_removed:
  "length (filter P xs) = 0 \<Longrightarrow> filter (\<lambda>p. \<not> P p) xs = xs"
  by (induction xs) (auto split: if_splits)

lemma cleanupTempIds_result:
  assumes "conversationKey \<noteq> []" "map_of (getAllRecords s) conversationKey = Some r"
    "nodes r = Some ns"
  shows "cleanupTempIds conversationKey s =
     (let n = length (filter (\<lambda>p. isTempId (fst p)) ns) in
      (n, if n > 0
          then StorageAdapter_set
                 (AList.update conversationKey
                    (r\<lparr>nodes := Some (filter (\<lambda>p. \<not> isTempId (fst p)) ns)\<rparr>)
                    (getAllRecords s)) s
          else s))"
  using assms by (simp add: cleanupTempIds_def cleanup_loop Let_def)

lemma isTempId_iff:
  "isTempId x \<longleftrightarrow>
     (\<exists>ls ds. x = ls @ CHR ''-'' # ds \<and> ls \<noteq> [] \<and> list_all isAsciiLetter ls
               \<and> ds \<noteq> [] \<and> list_all isDigit ds)"
proof
  assume t: "isTempId x"
  then obtain ds where d: "dropWhile isAsciiLetter x = CHR ''-'' # ds" "ds \<noteq> []" "list_all isDigit ds"
    by (auto simp: isTempId_def split: list.splits)
  have "x = takeWhile isAsciiLetter x @ CHR ''-'' # ds"
    using d(1) takeWhile_dropWhile_id [of isAsciiLetter x] by simp
  moreover have "list_all isAsciiLetter (takeWhile isAsciiLetter x)"
    by (simp add: list_all_iff) (meson set_takeWhileD)
  moreover have "takeWhile isAsciiLetter x \<noteq> []" using t by (simp add: isTempId_def)
  ultimately show "\<exists>ls ds. x = ls @ CHR ''-'' # ds \<and> ls \<noteq> [] \<and> list_all isAsciiLetter ls
               \<and> ds \<noteq> [] \<and> list_all isDigit ds"
    using d by blast
next
  assume "\<exists>ls ds. x = ls @ CHR ''-'' # ds \<and> ls \<noteq> [] \<and> list_all isAsciiLetter ls
               \<and> ds \<noteq> [] \<and> list_all isDigit ds"
  then obtain ls ds where x: "x = ls @ CHR ''-'' # ds" "ls \<noteq> []" "list_all isAsciiLetter ls"
    "ds \<noteq> []" "list_all isDigit ds" by blast
  have nl: "\<not> isAsciiLetter CHR ''-''" by (simp add: isAsciiLetter_def)
  have "takeWhile isAsciiLetter x = ls"
    using x(1,3) nl by (simp add: takeWhile_append2 list_all_iff takeWhile_tail)
  moreover have "dropWhile isAsciiLetter x = CHR ''-'' # ds"
    using x(1,3) nl by (simp add: dropWhile_append2 list_all_iff)
  ultimately show "isTempId x" using x by (simp add: isTempId_def)
qed


lemma StorageAdapter_set_records [simp]: "getAllRecords (StorageAdapter_set v s) = v"
  by (simp add: StorageAdapter_set_def getAllRecords_def)

lemma StorageAdapter_set_calls [simp]: "setCalls (StorageAdapter_set v s) = setCalls s + 1"
  by (simp add: StorageAdapter_set_def)

text \<open>
  C10. For a conversation whose record has a \<open>nodes\<close> map, \<^verbatim>\<open>cleanupTempIds\<close>
  returns the number of entries whose key matches the temporary-id pattern, leaves in
  the record exactly the other entries (in their order) and the record's
  \<open>createTime\<close> and \<open>lastVisit\<close>, leaves every other conversation's record and the
  key list unchanged, calls \<^verbatim>\<open>StorageAdapter.set\<close> once when it deleted something and
  not at all otherwise; with an empty key, no record or no \<open>nodes\<close> it returns 0 and
  changes nothing. The pattern is: letters, a hyphen, digits. \<^verbatim>\<open>init\<close> runs it, after
  \<^verbatim>\<open>updateLastVisit\<close>, exactly on platforms with the stable-node-id capability.
\<close>

theorem cleanupTempIds_deletes_temp_entries:
  "(conversationKey \<noteq> [] \<longrightarrow> map_of (getAllRecords s) conversationKey = Some r
      \<longrightarrow> nodes r = Some ns \<longrightarrow>
        fst (cleanupTempIds conversationKey s) = length (filter (\<lambda>p. isTempId (fst p)) ns)
      \<and> map_of (getAllRecords (snd (cleanupTempIds conversationKey s))) conversationKey
          = Some (r\<lparr>nodes := Some (filter (\<lambda>p. \<not> isTempId (fst p)) ns)\<rparr>)
      \<and> (\<forall>k. k \<noteq> conversationKey \<longrightarrow>
            map_of (getAllRecords (snd (cleanupTempIds conversationKey s))) k
              = map_of (getAllRecords s) k)
      \<and> map fst (getAllRecords (snd (cleanupTempIds conversationKey s)))
          = map fst (getAllRecords s)
      \<and> setCalls (snd (cleanupTempIds conversationKey s))
          = (if fst (cleanupTempIds conversationKey s) > 0 then setCalls s + 1 else setCalls s)
      \<and> (fst (cleanupTempIds conversationKey s) = 0 \<longrightarrow>
            snd (cleanupTempIds conversationKey s) = s))
   \<and> ((conversationKey = [] \<or> map_of (getAllRecords s) conversationKey = None
        \<or> (\<exists>r'. map_of (getAllRecords s) conversationKey = Some r' \<and> nodes r' = None))
      \<longrightarrow> cleanupTempIds conversationKey s = (0, s))
   \<and> (isTempId x \<longleftrightarrow>
        (\<exists>ls ds. x = ls @ CHR ''-'' # ds \<and> ls \<noteq> [] \<and> list_all isAsciiLetter ls
                 \<and> ds \<noteq> [] \<and> list_all isDigit ds))
   \<and> (chatTimesEnabled f \<longrightarrow> conversationKey \<noteq> [] \<longrightarrow>
        init f conversationKey now s =
          (if stableNodeId f
           then snd (cleanupTempIds conversationKey (snd (updateLastVisit conversationKey now s)))
           else snd (updateLastVisit conversationKey now s)))"
proof (intro conjI impI)
  assume a: "conversationKey \<noteq> []" "map_of (getAllRecords s) conversationKey = Some r"
    "nodes r = Some ns"
  let ?n = "length (filter (\<lambda>p. isTempId (fst p)) ns)"
  let ?r' = "r\<lparr>nodes := Some (filter (\<lambda>p. \<not> isTempId (fst p)) ns)\<rparr>"
  note res = cleanupTempIds_result [OF a]
  show "fst (cleanupTempIds conversationKey s) = ?n"
    by (simp add: res Let_def)
  show "map_of (getAllRecords (snd (cleanupTempIds conversationKey s))) conversationKey = Some ?r'"
  proof (cases "?n > 0")
    case True
    then show ?thesis by (simp add: res Let_def map_of_update_same)
  next
    case False
    then have "filter (\<lambda>p. \<not> isTempId (fst p)) ns = ns"
      by (simp add: filter_none_removed)
    then have "?r' = r" using a(3) by simp
    with False a show ?thesis by (simp add: res Let_def)
  qed
  show "\<forall>k. k \<noteq> conversationKey \<longrightarrow>
          map_of (getAllRecords (snd (cleanupTempIds conversationKey s))) k
            = map_of (getAllRecords s) k"
    by (simp add: res Let_def map_of_update_other)
  show "map fst (getAllRecords (snd (cleanupTempIds conversationKey s)))
          = map fst (getAllRecords s)"
    using a(2) by (simp add: res Let_def update_keys_present)
  show "setCalls (snd (cleanupTempIds conversationKey s))
          = (if fst (cleanupTempIds conversationKey s) > 0 then setCalls s + 1 else setCalls s)"
    by (simp add: res Let_def)
  show "snd (cleanupTempIds conversationKey s) = s"
    if "fst (cleanupTempIds conversationKey s) = 0"
    using that by (simp add: res Let_def split: if_splits)
next
  assume "conversationKey = [] \<or> map_of (getAllRecords s) conversationKey = None
        \<or> (\<exists>r'. map_of (getAllRecords s) conversationKey = Some r' \<and> nodes r' = None)"
  then show "cleanupTempIds conversationKey s = (0, s)"
    by (auto simp: cleanupTempIds_def)
next
  show "isTempId x \<longleftrightarrow>
        (\<exists>ls ds. x = ls @ CHR ''-'' # ds \<and> ls \<noteq> [] \<and> list_all isAsciiLetter ls
                 \<and> ds \<noteq> [] \<and> list_all isDigit ds)"
    by (rule isTempId_iff)
next
  assume "chatTimesEnabled f" "conversationKey \<noteq> []"
  then show "init f conversationKey now s =
          (if stableNodeId f
           then snd (cleanupTempIds conversationKey (snd (updateLastVisit conversationKey now s)))
           else snd (updateLastVisit conversationKey now s))"
    by (simp add: init_def Let_def)
qed

theorem cleanupTempIds_deletes_temp_entries_witness:
  "fst (cleanupTempIds ''c''
          \<lparr>chatTimes = Some [(''c'', \<lparr>createTime = Some 1, lastVisit = Some 2,
                                      nodes = Some [(''gemini-0'', 10), (''r_abc'', 11)]\<rparr>),
                             (''d'', \<lparr>createTime = Some 3, lastVisit = Some 4,
                                      nodes = Some [(''gemini-7'', 12)]\<rparr>)],
           setCalls = 0\<rparr>) = 1
   \<and> getAllRecords (snd (cleanupTempIds ''c''
          \<lparr>chatTimes = Some [(''c'', \<lparr>createTime = Some 1, lastVisit = Some 2,
                                      nodes = Some [(''gemini-0'', 10), (''r_abc'', 11)]\<rparr>),
                             (''d'', \<lparr>createTime = Some 3, lastVisit = Some 4,
                                      nodes = Some [(''gemini-7'', 12)]\<rparr>)],
           setCalls = 0\<rparr>))
       = [(''c'', \<lparr>createTime = Some 1, lastVisit = Some 2, nodes = Some [(''r_abc'', 11)]\<rparr>),
          (''d'', \<lparr>createTime = Some 3, lastVisit = Some 4,
                   nodes = Some [(''gemini-7'', 12)]\<rparr>)]
   \<and> setCalls (snd (cleanupTempIds ''c''
          \<lparr>chatTimes = Some [(''c'', \<lparr>createTime = Some 1, lastVisit = Some 2,
                                      nodes = Some [(''gemini-0'', 10), (''r_abc'', 11)]\<rparr>),
                             (''d'', \<lparr>createTime = Some 3, lastVisit = Some 4,
                                      nodes = Some [(''gemini-7'', 12)]\<rparr>)],
           setCalls = 0\<rparr>)) = 1
   \<and> cleanupTempIds ''e'' \<lparr>chatTimes = None, setCalls = 0\<rparr>
       = (0, \<lparr>chatTimes = None, setCalls = 0\<rparr>)"
proof -
  let ?c = "\<lparr>createTime = Some 1, lastVisit = Some 2,
             nodes = Some [(''gemini-0'', 10), (''r_abc'', 11)]\<rparr>"
  let ?d = "\<lparr>createTime = Some 3, lastVisit = Some 4, nodes = Some [(''gemini-7'', 12)]\<rparr>"
  let ?s = "\<lparr>chatTimes = Some [(''c'', ?c), (''d'', ?d)], setCalls = 0\<rparr>"
  let ?s' = "snd (cleanupTempIds ''c'' ?s)"
  have t: "isTempId ''gemini-0''" "\<not> isTempId ''r_abc''"
    by (simp_all add: isTempId_def isAsciiLetter_def isDigit_def)
  have h: "''c'' \<noteq> []" "map_of (getAllRecords ?s) ''c'' = Some ?c"
    "nodes ?c = Some [(''gemini-0'', 10), (''r_abc'', 11)]"
    by (simp_all add: getAllRecords_def)
  from cleanupTempIds_deletes_temp_entries
         [where conversationKey = "''c''" and s = ?s and r = ?c
            and ns = "[(''gemini-0'', 10), (''r_abc'', 11)]"]
  have 1: "fst (cleanupTempIds ''c'' ?s) = 1"
    and 2: "map_of (getAllRecords ?s') ''c'' = Some (?c\<lparr>nodes := Some [(''r_abc'', 11)]\<rparr>)"
    and 3: "map_of (getAllRecords ?s') ''d'' = Some ?d"
    and 4: "map fst (getAllRecords ?s') = [''c'', ''d'']"
    and 5: "setCalls ?s' = 1"
    using h t by (simp_all add: getAllRecords_def)
  from 4 obtain x y where xy: "getAllRecords ?s' = [(''c'', x), (''d'', y)]"
    by (auto simp: map_eq_Cons_conv)
  with 2 3 have "x = ?c\<lparr>nodes := Some [(''r_abc'', 11)]\<rparr>" "y = ?d" by simp_all
  with xy have 7: "getAllRecords ?s'
       = [(''c'', \<lparr>createTime = Some 1, lastVisit = Some 2, nodes = Some [(''r_abc'', 11)]\<rparr>),
          (''d'', ?d)]" by simp
  from cleanupTempIds_deletes_temp_entries
         [where conversationKey = "''e''" and s = "\<lparr>chatTimes = None, setCalls = 0\<rparr>"]
  have 6: "cleanupTempIds ''e'' \<lparr>chatTimes = None, setCalls = 0\<rparr>
             = (0, \<lparr>chatTimes = None, setCalls = 0\<rparr>)"
    by (simp add: getAllRecords_def)
  from 1 7 5 6 show ?thesis by blast
qed

subsection \<open>Write-once creation time\<close>

lemma setCreateTime_keeps_set:
  assumes "map_of (getAllRecords s) k = Some r" "truthy (createTime r)"
  shows "map_of (getAllRecords (snd (setCreateTime k' t s))) k = Some r"
proof (cases "k' = k")
  case True
  with assms show ?thesis by (cases "k = []") (simp_all add: setCreateTime_def)
next
  case False
  then show ?thesis
    using assms(1)
    by (auto simp: setCreateTime_def Let_def map_of_update_other split: option.splits)
qed

lemma setCreateTime_calls_keep:
  assumes "map_of (getAllRecords s) k = Some r" "truthy (createTime r)"
  shows "map_of (getAllRecords (foldl (\<lambda>st c. snd (setCreateTime (fst c) (snd c) st)) s calls)) k
           = Some r"
  using assms
proof (induction calls arbitrary: s)
  case Nil
  then show ?case by simp
next
  case (Cons c calls)
  have "map_of (getAllRecords (snd (setCreateTime (fst c) (snd c) s))) k = Some r"
    using Cons.prems by (rule setCreateTime_keeps_set)
  then show ?case using Cons.IH Cons.prems(2) by simp
qed

text \<open>
  C6 (amended). For a conversation record whose \<open>createTime\<close> is truthy (set, and not
  the number 0), \<^verbatim>\<open>setCreateTime\<close> returns false and leaves the store as it is, and no
  sequence of later \<^verbatim>\<open>setCreateTime\<close> calls, on this or any other conversation,
  changes the record.
\<close>

theorem setCreateTime_write_once:
  "map_of (getAllRecords s) conversationKey = Some r \<longrightarrow> truthy (createTime r) \<longrightarrow>
     setCreateTime conversationKey timestamp s = (False, s)
     \<and> map_of (getAllRecords
                 (foldl (\<lambda>st c. snd (setCreateTime (fst c) (snd c) st)) s calls)) conversationKey
         = Some r"
proof (intro impI conjI)
  assume a: "map_of (getAllRecords s) conversationKey = Some r" "truthy (createTime r)"
  show "setCreateTime conversationKey timestamp s = (False, s)"
    using a by (simp add: setCreateTime_def)
  show "map_of (getAllRecords
                 (foldl (\<lambda>st c. snd (setCreateTime (fst c) (snd c) st)) s calls)) conversationKey
         = Some r"
    using a by (rule setCreateTime_calls_keep)
qed

theorem setCreateTime_write_once_witness:
  "setCreateTime ''c'' 9
     \<lparr>chatTimes = Some [(''c'', \<lparr>createTime = Some 5, lastVisit = Some 6, nodes = Some []\<rparr>)],
      setCalls = 0\<rparr>
     = (False,
        \<lparr>chatTimes = Some [(''c'', \<lparr>createTime = Some 5, lastVisit = Some 6, nodes = Some []\<rparr>)],
         setCalls = 0\<rparr>)
   \<and> map_of (getAllRecords
               (foldl (\<lambda>st c. snd (setCreateTime (fst c) (snd c) st))
                  \<lparr>chatTimes = Some [(''c'', \<lparr>createTime = Some 5, lastVisit = Some 6,
                                              nodes = Some []\<rparr>)],
                   setCalls = 0\<rparr>
                  [(''c'', 9), (''d'', 10), (''c'', 11)])) ''c''
       = Some \<lparr>createTime = Some 5, lastVisit = Some 6, nodes = Some []\<rparr>"
proof -
  let ?r = "\<lparr>createTime = Some 5, lastVisit = Some 6, nodes = Some []\<rparr>"
  let ?s = "\<lparr>chatTimes = Some [(''c'', ?r)], setCalls = 0\<rparr>"
  have h: "map_of (getAllRecords ?s) ''c'' = Some ?r" "truthy (createTime ?r)"
    by (simp_all add: getAllRecords_def truthy_def)
  from setCreateTime_write_once
         [where conversationKey = "''c''" and s = ?s and r = ?r and timestamp = 9
            and calls = "[(''c'', 9), (''d'', 10), (''c'', 11)]"] h
  show ?thesis by blast
qed

text \<open>
  C6 as stated speaks of every non-null \<open>createTime\<close>. The guard tests truthiness:
  after \<^verbatim>\<open>setCreateTime('c', 0)\<close> on an empty store the field holds the non-null
  number 0, and \<^verbatim>\<open>setCreateTime('c', 7)\<close> then returns true and overwrites it.
\<close>

theorem setCreateTime_zero_counterexample:
  "createTime (getByConversation ''c''
       (snd (setCreateTime ''c'' 0 \<lparr>chatTimes = None, setCalls = 0\<rparr>))) = Some 0
   \<and> setCreateTime ''c'' 7 (snd (setCreateTime ''c'' 0 \<lparr>chatTimes = None, setCalls = 0\<rparr>))
       = (True,
          \<lparr>chatTimes = Some [(''c'', \<lparr>createTime = Some 7, lastVisit = Some 0,
                                      nodes = Some []\<rparr>)],
           setCalls = 2\<rparr>)"
  by (simp add: setCreateTime_def getByConversation_def getAllRecords_def
      StorageAdapter_set_def truthy_def)

subsection \<open>Migration of a temporary node id\<close>








subsection \<open>Removal of time records\<close>

lemma foldl_sweepStep:
  "foldl (sweepStep a now) (m, c) es =
     (filter (\<lambda>p. \<not> (\<exists>e \<in> set es. fst e = fst p \<and> inactive a now (snd e))) m,
      c + length (filter (\<lambda>e. inactive a now (snd e)) es))"
proof (induction es arbitrary: m c)
  case Nil
  then show ?case by simp
next
  case (Cons e es)
  have step: "sweepStep a now (m, c) e =
      (if inactive a now (snd e) then (AList.delete (fst e) m, c + 1) else (m, c))"
    by (simp add: sweepStep_def)
  show ?case
    by (auto simp: step Cons.IH AList.delete_eq intro!: filter_cong)
qed

lemma sweep_loop:
  assumes "distinct (map fst al)"
  shows "foldl (sweepStep a now) (al, 0) al =
     (filter (\<lambda>e. \<not> inactive a now (snd e)) al,
      length (filter (\<lambda>e. inactive a now (snd e)) al))"
proof -
  have "filter (\<lambda>p. \<not> (\<exists>e \<in> set al. fst e = fst p \<and> inactive a now (snd e))) al
          = filter (\<lambda>e. \<not> inactive a now (snd e)) al"
  proof (rule filter_cong [OF refl])
    fix p assume p: "p \<in> set al"
    have "e = p" if "e \<in> set al" "fst e = fst p" for e
      using that p assms by (metis eq_key_imp_eq_value prod.collapse)
    with p show "(\<not> (\<exists>e \<in> set al. fst e = fst p \<and> inactive a now (snd e)))
                  = (\<not> inactive a now (snd p))"
      by auto
  qed
  then show ?thesis by (simp add: foldl_sweepStep)
qed

lemma cleanup_result:
  assumes "distinct (map fst (getAllRecords s))"
  shows "cleanup d now s =
     (let n = length (filter (\<lambda>e. inactive (d * 24 * 60 * 60 * 1000) now (snd e))
                        (getAllRecords s))
      in (n, if n > 0
             then StorageAdapter_set
                    (filter (\<lambda>e. \<not> inactive (d * 24 * 60 * 60 * 1000) now (snd e))
                       (getAllRecords s)) s
             else s))"
  by (simp add: cleanup_def Let_def sweep_loop [OF assms])

lemma batchStep_keeps:
  "map_of m n = Some t \<Longrightarrow> map_of (fst (foldl (batchStep now) (m, c) xs)) n = Some t"
proof (induction xs arbitrary: m c)
  case Nil
  then show ?case by simp
next
  case (Cons x xs)
  obtain m' c' where s: "batchStep now (m, c) x = (m', c')" by (cases "batchStep now (m, c) x")
  have "map_of m' n = Some t"
    using s Cons.prems
    by (auto simp: batchStep_def update_conv' split: option.splits if_splits)
  then show ?case using Cons.IH s by simp
qed

lemma keepsEntries_iff:
  "keepsEntries s s' \<longleftrightarrow>
     (\<forall>e \<in> set (getAllRecords s).
        \<exists>r'. map_of (getAllRecords s') (fst e) = Some r'
            \<and> (\<forall>n \<in> set (nodesOf (snd e)).
                  map_of (nodesOf r') (fst n) = map_of (nodesOf (snd e)) (fst n)))"
  unfolding keepsEntries_def list_all_iff
  by (intro ball_cong refl) (auto split: option.splits)

lemma keepsEntries_refl:
  "distinct (map fst (getAllRecords s)) \<Longrightarrow> keepsEntries s s"
  by (auto simp: keepsEntries_iff)

lemma keepsEntries_update:
  assumes d: "distinct (map fst (getAllRecords s))"
    and u: "getAllRecords s' = AList.update k r' (getAllRecords s)"
    and n: "\<And>r n. map_of (getAllRecords s) k = Some r \<Longrightarrow> n \<in> set (nodesOf r) \<Longrightarrow>
              map_of (nodesOf r') (fst n) = map_of (nodesOf r) (fst n)"
  shows "keepsEntries s s'"
  unfolding keepsEntries_iff
proof
  fix e assume e: "e \<in> set (getAllRecords s)"
  have me: "map_of (getAllRecords s) (fst e) = Some (snd e)"
    using d e by (metis map_of_is_SomeI prod.collapse)
  show "\<exists>r'. map_of (getAllRecords s') (fst e) = Some r'
            \<and> (\<forall>n \<in> set (nodesOf (snd e)).
                  map_of (nodesOf r') (fst n) = map_of (nodesOf (snd e)) (fst n))"
  proof (cases "fst e = k")
    case True
    then show ?thesis using me n by (simp add: u map_of_update_same)
  next
    case False
    then show ?thesis using me by (simp add: u map_of_update_other)
  qed
qed

lemma keeps_updateLastVisit:
  assumes "distinct (map fst (getAllRecords s))"
  shows "keepsEntries s (snd (updateLastVisit k now s))"
proof (cases "fst (updateLastVisit k now s)")
  case False
  then have "snd (updateLastVisit k now s) = s"
    by (auto simp: updateLastVisit_def Let_def split: option.splits if_splits)
  then show ?thesis using assms by (simp add: keepsEntries_refl)
next
  case True
  then obtain r where r: "map_of (getAllRecords s) k = Some r"
    and u: "snd (updateLastVisit k now s)
       = StorageAdapter_set (AList.update k (r\<lparr>lastVisit := Some now\<rparr>) (getAllRecords s)) s"
    by (auto simp: updateLastVisit_def Let_def split: option.splits if_splits)
  show ?thesis
    by (rule keepsEntries_update [OF assms, where k = k and r' = "r\<lparr>lastVisit := Some now\<rparr>"])
       (simp_all add: u r nodesOf_def)
qed

lemma keeps_setCreateTime:
  assumes "distinct (map fst (getAllRecords s))"
  shows "keepsEntries s (snd (setCreateTime k t s))"
proof (cases "fst (setCreateTime k t s)")
  case False
  then have "snd (setCreateTime k t s) = s"
    by (auto simp: setCreateTime_def Let_def split: option.splits if_splits)
  then show ?thesis using assms by (simp add: keepsEntries_refl)
next
  case True
  show ?thesis
  proof (cases "map_of (getAllRecords s) k")
    case None
    with True have u: "snd (setCreateTime k t s)
       = StorageAdapter_set
           (AList.update k \<lparr>createTime = Some t, lastVisit = Some t, nodes = Some []\<rparr>
              (getAllRecords s)) s"
      by (auto simp: setCreateTime_def Let_def split: if_splits)
    show ?thesis
      by (rule keepsEntries_update [OF assms, where k = k
              and r' = "\<lparr>createTime = Some t, lastVisit = Some t, nodes = Some []\<rparr>"])
         (simp_all add: u None)
  next
    case (Some r)
    with True have u: "snd (setCreateTime k t s)
       = StorageAdapter_set (AList.update k (r\<lparr>createTime := Some t\<rparr>) (getAllRecords s)) s"
      by (auto simp: setCreateTime_def Let_def split: if_splits)
    show ?thesis
      by (rule keepsEntries_update [OF assms, where k = k and r' = "r\<lparr>createTime := Some t\<rparr>"])
         (simp_all add: u Some nodesOf_def)
  qed
qed

lemma keeps_batchSetNodeTimes:
  assumes "distinct (map fst (getAllRecords s))"
  shows "keepsEntries s (snd (batchSetNodeTimes k ns now s))"
proof (cases "fst (batchSetNodeTimes k ns now s) > 0")
  case False
  then have "snd (batchSetNodeTimes k ns now s) = s"
    by (auto simp: batchSetNodeTimes_def Let_def split: if_splits)
  then show ?thesis using assms by (simp add: keepsEntries_refl)
next
  case True
  define r0 where "r0 = (case map_of (getAllRecords s) k of
                       None \<Rightarrow> \<lparr>createTime = None, lastVisit = Some now, nodes = Some []\<rparr>
                     | Some r \<Rightarrow> r)"
  define res where "res = foldl (batchStep now) (nodesOf r0, 0) ns"
  define r1 where "r1 = r0\<lparr>nodes := Some (fst res), lastVisit := Some now\<rparr>"
  from True have u: "snd (batchSetNodeTimes k ns now s)
       = StorageAdapter_set (AList.update k r1 (getAllRecords s)) s"
    by (auto simp: batchSetNodeTimes_def Let_def r0_def res_def r1_def nodesOf_def
        split: if_splits)
  show ?thesis
  proof (rule keepsEntries_update [OF assms, where k = k and r' = r1])
    show "getAllRecords (snd (batchSetNodeTimes k ns now s)) = AList.update k r1 (getAllRecords s)"
      by (simp add: u)
  next
    fix r n assume r: "map_of (getAllRecords s) k = Some r" and n: "n \<in> set (nodesOf r)"
    then have r0: "r0 = r" by (simp add: r0_def)
    from n obtain v where v: "map_of (nodesOf r) (fst n) = Some v"
      by (metis image_eqI map_of_eq_None_iff not_None_eq)
    have "map_of (fst res) (fst n) = Some v"
      unfolding res_def r0 by (rule batchStep_keeps [OF v])
    then show "map_of (nodesOf r1) (fst n) = map_of (nodesOf r) (fst n)"
      using v by (simp add: r1_def nodesOf_def)
  qed
qed

text \<open>
  C9 (amended). In a store with one record per conversation key, \<^verbatim>\<open>updateLastVisit\<close>,
  \<^verbatim>\<open>setCreateTime\<close> and \<^verbatim>\<open>batchSetNodeTimes\<close> never remove a conversation record or
  a per-turn entry. Time records are removed automatically at script load:
  \<^verbatim>\<open>cleanup(30)\<close> deletes exactly the records whose \<open>lastVisit\<close> is missing, zero
  or more than 30 days before the current time, keeps the others as they are, writes
  once when it deleted a record and leaves the store untouched otherwise.
\<close>

theorem time_records_removed_by_cleanup_only:
  "distinct (map fst (getAllRecords s)) \<longrightarrow>
     keepsEntries s (snd (updateLastVisit k now s))
   \<and> keepsEntries s (snd (setCreateTime k t s))
   \<and> keepsEntries s (snd (batchSetNodeTimes k ns now s))
   \<and> getAllRecords (loadCleanup now s)
       = filter (\<lambda>e. \<not> inactive (30 * 24 * 60 * 60 * 1000) now (snd e)) (getAllRecords s)
   \<and> setCalls (loadCleanup now s)
       = (if \<exists>e \<in> set (getAllRecords s). inactive (30 * 24 * 60 * 60 * 1000) now (snd e)
          then setCalls s + 1 else setCalls s)
   \<and> ((\<forall>e \<in> set (getAllRecords s). \<not> inactive (30 * 24 * 60 * 60 * 1000) now (snd e))
        \<longrightarrow> loadCleanup now s = s)"
proof (intro impI conjI)
  assume d: "distinct (map fst (getAllRecords s))"
  let ?P = "\<lambda>e. inactive (30 * 24 * 60 * 60 * 1000) now (snd e)"
  have len: "length (filter ?P (getAllRecords s)) > 0 \<longleftrightarrow> (\<exists>e \<in> set (getAllRecords s). ?P e)"
    by (simp add: length_greater_0_conv filter_empty_conv)
  show "keepsEntries s (snd (updateLastVisit k now s))" by (rule keeps_updateLastVisit [OF d])
  show "keepsEntries s (snd (setCreateTime k t s))" by (rule keeps_setCreateTime [OF d])
  show "keepsEntries s (snd (batchSetNodeTimes k ns now s))"
    by (rule keeps_batchSetNodeTimes [OF d])
  show "getAllRecords (loadCleanup now s)
       = filter (\<lambda>e. \<not> ?P e) (getAllRecords s)"
  proof (cases "\<exists>e \<in> set (getAllRecords s). ?P e")
    case True
    then show ?thesis using len by (simp add: loadCleanup_def cleanup_result [OF d] Let_def)
  next
    case False
    then have "filter (\<lambda>e. \<not> ?P e) (getAllRecords s) = getAllRecords s"
      by (simp add: filter_id_conv)
    with False show ?thesis using len
      by (simp add: loadCleanup_def cleanup_result [OF d] Let_def)
  qed
  show "setCalls (loadCleanup now s)
       = (if \<exists>e \<in> set (getAllRecords s). ?P e then setCalls s + 1 else setCalls s)"
    using len by (simp add: loadCleanup_def cleanup_result [OF d] Let_def)
  show "loadCleanup now s = s" if "\<forall>e \<in> set (getAllRecords s). \<not> ?P e"
    using that len by (simp add: loadCleanup_def cleanup_result [OF d] Let_def)
qed

theorem time_records_removed_by_cleanup_only_witness:
  "getAllRecords (loadCleanup 2592000002
      \<lparr>chatTimes = Some [(''old'', \<lparr>createTime = Some 1, lastVisit = Some 1,
                                    nodes = Some [(''gemini-0'', 1)]\<rparr>),
                         (''new'', \<lparr>createTime = Some 2000000000, lastVisit = Some 2000000000,
                                    nodes = Some [(''r_abc'', 2000000000)]\<rparr>)],
       setCalls = 0\<rparr>)
     = [(''new'', \<lparr>createTime = Some 2000000000, lastVisit = Some 2000000000,
                   nodes = Some [(''r_abc'', 2000000000)]\<rparr>)]
   \<and> setCalls (loadCleanup 2592000002
      \<lparr>chatTimes = Some [(''old'', \<lparr>createTime = Some 1, lastVisit = Some 1,
                                    nodes = Some [(''gemini-0'', 1)]\<rparr>),
                         (''new'', \<lparr>createTime = Some 2000000000, lastVisit = Some 2000000000,
                                    nodes = Some [(''r_abc'', 2000000000)]\<rparr>)],
       setCalls = 0\<rparr>) = 1
   \<and> keepsEntries
       \<lparr>chatTimes = Some [(''old'', \<lparr>createTime = Some 1, lastVisit = Some 1,
                                    nodes = Some [(''gemini-0'', 1)]\<rparr>),
                         (''new'', \<lparr>createTime = Some 2000000000, lastVisit = Some 2000000000,
                                    nodes = Some [(''r_abc'', 2000000000)]\<rparr>)],
       setCalls = 0\<rparr>
       (snd (batchSetNodeTimes ''new'' [(Some ''r_def'', Some 2592000002)] 2592000002
         \<lparr>chatTimes = Some [(''old'', \<lparr>createTime = Some 1, lastVisit = Some 1,
                                    nodes = Some [(''gemini-0'', 1)]\<rparr>),
                         (''new'', \<lparr>createTime = Some 2000000000, lastVisit = Some 2000000000,
                                    nodes = Some [(''r_abc'', 2000000000)]\<rparr>)],
          setCalls = 0\<rparr>))"
proof -
  let ?old = "\<lparr>createTime = Some 1, lastVisit = Some 1, nodes = Some [(''gemini-0'', 1)]\<rparr>"
  let ?new = "\<lparr>createTime = Some 2000000000, lastVisit = Some 2000000000,
               nodes = Some [(''r_abc'', 2000000000)]\<rparr>"
  let ?s = "\<lparr>chatTimes = Some [(''old'', ?old), (''new'', ?new)], setCalls = 0\<rparr>"
  have d: "distinct (map fst (getAllRecords ?s))" by (simp add: getAllRecords_def)
  from time_records_removed_by_cleanup_only
         [where s = ?s and now = 2592000002 and k = "''new''"
            and ns = "[(Some ''r_def'', Some 2592000002)]"] d
  show ?thesis by (simp add: getAllRecords_def inactive_def)
qed

text \<open>
  C9 as stated excludes every automatic removal. A record last visited more than 30
  days ago is gone after the load-time \<^verbatim>\<open>cleanup(30)\<close>, and \<^verbatim>\<open>init\<close> on a platform
  with stable node ids removes the per-turn entry \<^verbatim>\<open>gemini-0\<close>.
\<close>

theorem load_cleanup_counterexample:
  "map_of (getAllRecords
      \<lparr>chatTimes = Some [(''old'', \<lparr>createTime = Some 1, lastVisit = Some 1,
                                    nodes = Some [(''gemini-0'', 1)]\<rparr>)],
       setCalls = 0\<rparr>) ''old''
     = Some \<lparr>createTime = Some 1, lastVisit = Some 1, nodes = Some [(''gemini-0'', 1)]\<rparr>
   \<and> map_of (getAllRecords (loadCleanup 2592000002
      \<lparr>chatTimes = Some [(''old'', \<lparr>createTime = Some 1, lastVisit = Some 1,
                                    nodes = Some [(''gemini-0'', 1)]\<rparr>)],
       setCalls = 0\<rparr>)) ''old'' = None
   \<and> getAllRecords (init \<lparr>chatTimesEnabled = True, stableNodeId = True\<rparr> ''old'' 2
      \<lparr>chatTimes = Some [(''old'', \<lparr>createTime = Some 1, lastVisit = Some 1,
                                    nodes = Some [(''gemini-0'', 1)]\<rparr>)],
       setCalls = 0\<rparr>)
     = [(''old'', \<lparr>createTime = Some 1, lastVisit = Some 2, nodes = Some []\<rparr>)]"
  by (simp add: getAllRecords_def loadCleanup_def cleanup_def sweepStep_def inactive_def
      StorageAdapter_set_def AList.delete_eq init_def updateLastVisit_def cleanupTempIds_def
      cleanupStep_def isTempId_def isAsciiLetter_def isDigit_def)

section \<open>Properties of the star collection\<close>

lemma putItem_Nil: "putItem it [] = [it]"
  by (simp add: putItem_def)

lemma putItem_Cons:
  "putItem it (x # xs) = (if key x = key it then it # xs else x # putItem it xs)"
  by (simp add: putItem_def Let_def nat_add_distrib)

lemma putItem_keys:
  "map key (putItem it xs) =
     (if key it \<in> set (map key xs) then map key xs else map key xs @ [key it])"
  by (induction xs) (auto simp: putItem_Nil putItem_Cons)

lemma putItem_find:
  "find (\<lambda>x. key x = k) (putItem it xs) =
     (if k = key it then Some it else find (\<lambda>x. key x = k) xs)"
  by (induction xs) (auto simp: putItem_Nil putItem_Cons)

lemma putItem_present:
  "key it \<in> set (map key xs) \<Longrightarrow> length (putItem it xs) = length xs"
  by (induction xs) (auto simp: putItem_Nil putItem_Cons)

lemma putItem_absent:
  "key it \<notin> set (map key xs) \<Longrightarrow> putItem it xs = xs @ [it]"
  by (induction xs) (auto simp: putItem_Nil putItem_Cons)

lemma add_getAll:
  "key it \<noteq> [] \<Longrightarrow>
     StarStorageManager_getAll (StarStorageManager_add (Some it) data)
       = putItem it (StarStorageManager_getAll data)"
  by (simp add: StarStorageManager_add_def StarStorageManager_getAll_def)

lemma upsertAll_snoc:
  "upsertAll (its @ [it]) data = StarStorageManager_add (Some it) (upsertAll its data)"
  by (simp add: upsertAll_def)

lemma upsertAll_props:
  assumes "distinct (map key (StarStorageManager_getAll data))" "\<forall>it \<in> set its. key it \<noteq> []"
  shows "distinct (map key (StarStorageManager_getAll (upsertAll its data)))
     \<and> set (map key (StarStorageManager_getAll (upsertAll its data)))
         = set (map key (StarStorageManager_getAll data)) \<union> set (map key its)
     \<and> (\<forall>k. find (\<lambda>x. key x = k) (StarStorageManager_getAll (upsertAll its data))
            = (case find (\<lambda>x. key x = k) (rev its) of
                 Some it \<Rightarrow> Some it
               | None \<Rightarrow> find (\<lambda>x. key x = k) (StarStorageManager_getAll data)))"
  using assms(2)
proof (induction its rule: rev_induct)
  case Nil
  then show ?case using assms(1) by (simp add: upsertAll_def)
next
  case (snoc it its)
  then have ih: "distinct (map key (StarStorageManager_getAll (upsertAll its data)))"
    "set (map key (StarStorageManager_getAll (upsertAll its data)))
         = set (map key (StarStorageManager_getAll data)) \<union> set (map key its)"
    "\<And>k. find (\<lambda>x. key x = k) (StarStorageManager_getAll (upsertAll its data))
            = (case find (\<lambda>x. key x = k) (rev its) of
                 Some it \<Rightarrow> Some it
               | None \<Rightarrow> find (\<lambda>x. key x = k) (StarStorageManager_getAll data))"
    by simp_all
  from snoc.prems have k: "key it \<noteq> []" by simp
  let ?prev = "StarStorageManager_getAll (upsertAll its data)"
  have g: "StarStorageManager_getAll (upsertAll (its @ [it]) data) = putItem it ?prev"
    by (simp add: upsertAll_snoc add_getAll [OF k])
  have "distinct (map key (putItem it ?prev))"
    using ih(1) by (simp add: putItem_keys)
  moreover have "set (map key (putItem it ?prev))
      = set (map key (StarStorageManager_getAll data)) \<union> set (map key (its @ [it]))"
    using ih(2) by (auto simp: putItem_keys)
  moreover have "find (\<lambda>x. key x = k) (putItem it ?prev)
      = (case find (\<lambda>x. key x = k) (rev (its @ [it])) of
           Some it \<Rightarrow> Some it
         | None \<Rightarrow> find (\<lambda>x. key x = k) (StarStorageManager_getAll data))" for k
    by (simp add: putItem_find ih(3))
  ultimately show ?case unfolding g by blast
qed


text \<open>
  C5. Starting from a collection with at most one record per key, after any sequence
  of \<^verbatim>\<open>add\<close> calls whose items carry a (non-empty) key, \<^verbatim>\<open>getAll()\<close> has at most
  one record per key, its keys are the initial keys and the upserted ones, and looking
  a key up gives the last item upserted with it (\<open>find\<close> on the reversed sequence)
  or, if none was, the initial record. A single \<^verbatim>\<open>add\<close> keeps the key sequence when
  the key is present (replacement in place) and appends the item otherwise.
\<close>

theorem star_upsert_unique_last_wins:
  "distinct (map key (StarStorageManager_getAll (data :: 'a star_item list option))) \<longrightarrow> (\<forall>it \<in> set its. key it \<noteq> []) \<longrightarrow>
     distinct (map key (StarStorageManager_getAll (upsertAll its data)))
   \<and> set (map key (StarStorageManager_getAll (upsertAll its data)))
       = set (map key (StarStorageManager_getAll data)) \<union> set (map key its)
   \<and> (\<forall>k. find (\<lambda>x. key x = k) (StarStorageManager_getAll (upsertAll its data))
          = (case find (\<lambda>x. key x = k) (rev its) of
               Some it \<Rightarrow> Some it
             | None \<Rightarrow> find (\<lambda>x. key x = k) (StarStorageManager_getAll data)))
   \<and> (\<forall>(it :: 'a star_item) d. key it \<noteq> [] \<longrightarrow>
          (if key it \<in> set (map key (StarStorageManager_getAll d))
           then map key (StarStorageManager_getAll (StarStorageManager_add (Some it) d))
                  = map key (StarStorageManager_getAll d)
           else StarStorageManager_getAll (StarStorageManager_add (Some it) d)
                  = StarStorageManager_getAll d @ [it]))"
proof (intro impI)
  assume a: "distinct (map key (StarStorageManager_getAll data))" "\<forall>it \<in> set its. key it \<noteq> []"
  have "(if key it \<in> set (map key (StarStorageManager_getAll d))
           then map key (StarStorageManager_getAll (StarStorageManager_add (Some it) d))
                  = map key (StarStorageManager_getAll d)
           else StarStorageManager_getAll (StarStorageManager_add (Some it) d)
                  = StarStorageManager_getAll d @ [it])"
    if "key it \<noteq> []" for it :: "'a star_item" and d
    using that by (simp add: add_getAll putItem_keys putItem_absent)
  with upsertAll_props [OF a] show
    "distinct (map key (StarStorageManager_getAll (upsertAll its data)))
   \<and> set (map key (StarStorageManager_getAll (upsertAll its data)))
       = set (map key (StarStorageManager_getAll data)) \<union> set (map key its)
   \<and> (\<forall>k. find (\<lambda>x. key x = k) (StarStorageManager_getAll (upsertAll its data))
          = (case find (\<lambda>x. key x = k) (rev its) of
               Some it \<Rightarrow> Some it
             | None \<Rightarrow> find (\<lambda>x. key x = k) (StarStorageManager_getAll data)))
   \<and> (\<forall>(it :: 'a star_item) d. key it \<noteq> [] \<longrightarrow>
          (if key it \<in> set (map key (StarStorageManager_getAll d))
           then map key (StarStorageManager_getAll (StarStorageManager_add (Some it) d))
                  = map key (StarStorageManager_getAll d)
           else StarStorageManager_getAll (StarStorageManager_add (Some it) d)
                  = StarStorageManager_getAll d @ [it]))"
    by blast
qed

theorem star_upsert_unique_last_wins_witness:
  "distinct (map key (StarStorageManager_getAll
       (upsertAll [\<lparr>key = ''url:5'', details = ''a''\<rparr>, \<lparr>key = ''url:7'', details = ''c''\<rparr>,
                   \<lparr>key = ''url:5'', details = ''b''\<rparr>] None)))
   \<and> set (map key (StarStorageManager_getAll
       (upsertAll [\<lparr>key = ''url:5'', details = ''a''\<rparr>, \<lparr>key = ''url:7'', details = ''c''\<rparr>,
                   \<lparr>key = ''url:5'', details = ''b''\<rparr>] None))) = {''url:5'', ''url:7''}
   \<and> find (\<lambda>x. key x = ''url:5'') (StarStorageManager_getAll
       (upsertAll [\<lparr>key = ''url:5'', details = ''a''\<rparr>, \<lparr>key = ''url:7'', details = ''c''\<rparr>,
                   \<lparr>key = ''url:5'', details = ''b''\<rparr>] None))
       = Some \<lparr>key = ''url:5'', details = ''b''\<rparr>"
proof -
  let ?its = "[\<lparr>key = ''url:5'', details = ''a''\<rparr>, \<lparr>key = ''url:7'', details = ''c''\<rparr>,
               \<lparr>key = ''url:5'', details = ''b''\<rparr>]"
  have h: "distinct (map key (StarStorageManager_getAll (None :: string star_item list option)))"
    "\<forall>it \<in> set ?its. key it \<noteq> []"
    by (simp_all add: StarStorageManager_getAll_def)
  from star_upsert_unique_last_wins [where data = None and its = ?its] h
  have "distinct (map key (StarStorageManager_getAll (upsertAll ?its None)))"
    and "set (map key (StarStorageManager_getAll (upsertAll ?its None)))
           = set (map key (StarStorageManager_getAll (None :: string star_item list option)))
             \<union> set (map key ?its)"
    and "find (\<lambda>x. key x = ''url:5'') (StarStorageManager_getAll (upsertAll ?its None))
          = (case find (\<lambda>x. key x = ''url:5'') (rev ?its) of
               Some it \<Rightarrow> Some it
             | None \<Rightarrow> find (\<lambda>x. key x = ''url:5'')
                         (StarStorageManager_getAll (None :: string star_item list option)))"
    by blast+
  then show ?thesis by (simp add: StarStorageManager_getAll_def insert_commute)
qed

text \<open>Scenario C of the specification, evaluated.\<close>

lemma star_scenario_C:
  "StarStorageManager_getAll
       (upsertAll [\<lparr>key = ''url:5'', details = ''a''\<rparr>, \<lparr>key = ''url:5'', details = ''b''\<rparr>] None)
   = [\<lparr>key = ''url:5'', details = ''b''\<rparr>]"
  by (simp add: upsertAll_def StarStorageManager_add_def StarStorageManager_getAll_def putItem_def)

section \<open>Properties of the stored-key lookup\<close>

text \<open>
  C2. For a stored key that is neither \<^verbatim>\<open>null\<close> nor \<^verbatim>\<open>undefined\<close>, Doubao's
  \<^verbatim>\<open>findMarkerByStoredIndex\<close> and the default path of \<^verbatim>\<open>findMarkerByNodeKey\<close> (an
  adapter with \<^verbatim>\<open>generateTurnIdFromIndex\<close> and no lookup method of its own) return the
  marker stored in the turn-id map under the key derived from the stored key when there
  is one; when there is none and the stored key is a number within the bounds of the
  marker array, the marker at that position; and \<^verbatim>\<open>null\<close> in every other case. With an
  adapter that has its own lookup method, \<^verbatim>\<open>findMarkerByNodeKey\<close> returns what that
  method returns; with no adapter, or one that derives no key, only the position is
  tried. A \<^verbatim>\<open>null\<close> or \<^verbatim>\<open>undefined\<close> key gives \<^verbatim>\<open>null\<close>.
\<close>

theorem stored_key_lookup_exact_then_index:
  "(storedKey \<noteq> KNull \<longrightarrow> storedKey \<noteq> KUndefined \<longrightarrow>
      (\<forall>m. mm (Doubao_generateTurnIdFromIndex storedKey) = Some m \<longrightarrow>
            Doubao_findMarkerByStoredIndex storedKey ms (Some mm) = Inr (Some m))
    \<and> (mm (Doubao_generateTurnIdFromIndex storedKey) = None \<longrightarrow>
          (\<forall>n. storedKey = KNum n \<longrightarrow> 0 \<le> n \<longrightarrow> n < int (length ms) \<longrightarrow>
                Doubao_findMarkerByStoredIndex storedKey ms (Some mm) = Inr (Some (ms ! nat n)))
        \<and> ((\<forall>n. storedKey = KNum n \<longrightarrow> n < 0 \<or> int (length ms) \<le> n) \<longrightarrow>
                Doubao_findMarkerByStoredIndex storedKey ms (Some mm) = Inr None)))
   \<and> (storedKey \<noteq> KNull \<longrightarrow> storedKey \<noteq> KUndefined \<longrightarrow>
      adapter tm = Some a \<longrightarrow> findMarkerByStoredIndex a = None \<longrightarrow>
      generateTurnIdFromIndex a = Some gen \<longrightarrow> markerMap tm = Some mm \<longrightarrow>
      (\<forall>m. mm (gen storedKey) = Some m \<longrightarrow> findMarkerByNodeKey tm storedKey = Inr (Some m))
    \<and> (mm (gen storedKey) = None \<longrightarrow>
          (\<forall>n. storedKey = KNum n \<longrightarrow> 0 \<le> n \<longrightarrow> n < int (length (markers tm)) \<longrightarrow>
                findMarkerByNodeKey tm storedKey = Inr (Some (markers tm ! nat n)))
        \<and> ((\<forall>n. storedKey = KNum n \<longrightarrow> n < 0 \<or> int (length (markers tm)) \<le> n) \<longrightarrow>
                findMarkerByNodeKey tm storedKey = Inr None)))
   \<and> (storedKey \<noteq> KNull \<longrightarrow> storedKey \<noteq> KUndefined \<longrightarrow>
      adapter tm = Some a \<longrightarrow> findMarkerByStoredIndex a = Some f \<longrightarrow>
      findMarkerByNodeKey tm storedKey = f storedKey (markers tm) (markerMap tm))
   \<and> (storedKey \<noteq> KNull \<longrightarrow> storedKey \<noteq> KUndefined \<longrightarrow>
      (adapter tm = None
       \<or> (adapter tm = Some a \<and> findMarkerByStoredIndex a = None
          \<and> generateTurnIdFromIndex a = None)) \<longrightarrow>
      findMarkerByNodeKey tm storedKey
        = Inr (case storedKey of
                 KNum n \<Rightarrow>
                   if 0 \<le> n \<and> n < int (length (markers tm)) then Some (markers tm ! nat n)
                   else None
               | _ \<Rightarrow> None))
   \<and> (storedKey = KNull \<or> storedKey = KUndefined \<longrightarrow>
      Doubao_findMarkerByStoredIndex storedKey ms mmo = Inr None
    \<and> findMarkerByNodeKey tm storedKey = Inr None)"
proof (intro conjI impI allI)
  fix m
  assume "storedKey \<noteq> KNull" "storedKey \<noteq> KUndefined"
    "mm (Doubao_generateTurnIdFromIndex storedKey) = Some m"
  then show "Doubao_findMarkerByStoredIndex storedKey ms (Some mm) = Inr (Some m)"
    by (simp add: Doubao_findMarkerByStoredIndex_def Doubao_generateTurnIdFromIndex_def)
next
  fix n
  assume "storedKey \<noteq> KNull" "storedKey \<noteq> KUndefined"
    "mm (Doubao_generateTurnIdFromIndex storedKey) = None"
    "storedKey = KNum n" "0 \<le> n" "n < int (length ms)"
  then show "Doubao_findMarkerByStoredIndex storedKey ms (Some mm) = Inr (Some (ms ! nat n))"
    by (simp add: Doubao_findMarkerByStoredIndex_def Doubao_generateTurnIdFromIndex_def)
next
  assume "storedKey \<noteq> KNull" "storedKey \<noteq> KUndefined"
    "mm (Doubao_generateTurnIdFromIndex storedKey) = None"
    "\<forall>n. storedKey = KNum n \<longrightarrow> n < 0 \<or> int (length ms) \<le> n"
  then show "Doubao_findMarkerByStoredIndex storedKey ms (Some mm) = Inr None"
    by (cases storedKey)
       (auto simp: Doubao_findMarkerByStoredIndex_def Doubao_generateTurnIdFromIndex_def)
next
  fix m
  assume "storedKey \<noteq> KNull" "storedKey \<noteq> KUndefined" "adapter tm = Some a"
    "findMarkerByStoredIndex a = None" "generateTurnIdFromIndex a = Some gen"
    "markerMap tm = Some mm" "mm (gen storedKey) = Some m"
  then show "findMarkerByNodeKey tm storedKey = Inr (Some m)"
    by (simp add: findMarkerByNodeKey_def)
next
  fix n
  assume "storedKey \<noteq> KNull" "storedKey \<noteq> KUndefined" "adapter tm = Some a"
    "findMarkerByStoredIndex a = None" "generateTurnIdFromIndex a = Some gen"
    "markerMap tm = Some mm" "mm (gen storedKey) = None"
    "storedKey = KNum n" "0 \<le> n" "n < int (length (markers tm))"
  then show "findMarkerByNodeKey tm storedKey = Inr (Some (markers tm ! nat n))"
    by (simp add: findMarkerByNodeKey_def)
next
  assume "storedKey \<noteq> KNull" "storedKey \<noteq> KUndefined" "adapter tm = Some a"
    "findMarkerByStoredIndex a = None" "generateTurnIdFromIndex a = Some gen"
    "markerMap tm = Some mm" "mm (gen storedKey) = None"
    "\<forall>n. storedKey = KNum n \<longrightarrow> n < 0 \<or> int (length (markers tm)) \<le> n"
  then show "findMarkerByNodeKey tm storedKey = Inr None"
    by (cases storedKey) (auto simp: findMarkerByNodeKey_def)
next
  assume "storedKey \<noteq> KNull" "storedKey \<noteq> KUndefined" "adapter tm = Some a"
    "findMarkerByStoredIndex a = Some f"
  then show "findMarkerByNodeKey tm storedKey = f storedKey (markers tm) (markerMap tm)"
    by (simp add: findMarkerByNodeKey_def)
next
  assume "storedKey \<noteq> KNull" "storedKey \<noteq> KUndefined"
    "adapter tm = None
       \<or> (adapter tm = Some a \<and> findMarkerByStoredIndex a = None
          \<and> generateTurnIdFromIndex a = None)"
  then show "findMarkerByNodeKey tm storedKey
        = Inr (case storedKey of
                 KNum n \<Rightarrow>
                   if 0 \<le> n \<and> n < int (length (markers tm)) then Some (markers tm ! nat n)
                   else None
               | _ \<Rightarrow> None)"
    by (cases storedKey) (auto simp: findMarkerByNodeKey_def)
next
  assume "storedKey = KNull \<or> storedKey = KUndefined"
  then show "Doubao_findMarkerByStoredIndex storedKey ms mmo = Inr None"
    by (auto simp: Doubao_findMarkerByStoredIndex_def)
next
  assume "storedKey = KNull \<or> storedKey = KUndefined"
  then show "findMarkerByNodeKey tm storedKey = Inr None"
    by (auto simp: findMarkerByNodeKey_def)
qed

theorem stored_key_lookup_exact_then_index_witness:
  "Doubao_findMarkerByStoredIndex (KStr ''abc'') [''m0'', ''m1'']
       (Some (map_of [(''doubao-abc'', ''m1''), (''doubao-7'', ''m0'')])) = Inr (Some ''m1'')
   \<and> Doubao_findMarkerByStoredIndex (KNum 1) [''m0'', ''m1'']
       (Some (map_of [(''doubao-abc'', ''m1''), (''doubao-7'', ''m0'')])) = Inr (Some ''m1'')
   \<and> Doubao_findMarkerByStoredIndex (KNum 7) [''m0'', ''m1'']
       (Some (map_of [(''doubao-abc'', ''m1''), (''doubao-7'', ''m0'')])) = Inr (Some ''m0'')
   \<and> Doubao_findMarkerByStoredIndex (KNum 2) [''m0'', ''m1'']
       (Some (map_of [(''doubao-abc'', ''m1''), (''doubao-7'', ''m0'')])) = Inr None
   \<and> Doubao_findMarkerByStoredIndex (KStr ''zzz'') [''m0'', ''m1'']
       (Some (map_of [(''doubao-abc'', ''m1''), (''doubao-7'', ''m0'')])) = Inr None
   \<and> findMarkerByNodeKey
       \<lparr>adapter = Some DoubaoAdapter, markers = [''m0'', ''m1''],
        markerMap = Some (map_of [(''doubao-abc'', ''m1''), (''doubao-7'', ''m0'')])\<rparr> (KNum 1)
       = Inr (Some ''m1'')
   \<and> findMarkerByNodeKey
       \<lparr>adapter = Some \<lparr>findMarkerByStoredIndex = None,
                         generateTurnIdFromIndex = Some (\<lambda>k. ''kimi-'' @ templateString k)\<rparr>,
        markers = [''m0'', ''m1''],
        markerMap = Some (map_of [(''kimi-0'', ''m0''), (''kimi-1'', ''m1'')])\<rparr> (KNum 1)
       = Inr (Some ''m1'')"
proof -
  let ?ms = "[''m0'', ''m1'']"
  let ?mm = "map_of [(''doubao-abc'', ''m1''), (''doubao-7'', ''m0'')]"
  let ?tm = "\<lparr>adapter = Some DoubaoAdapter, markers = ?ms, markerMap = Some ?mm\<rparr>"
  let ?gen = "\<lambda>k. ''kimi-'' @ templateString k"
  let ?a = "\<lparr>findMarkerByStoredIndex = None, generateTurnIdFromIndex = Some ?gen\<rparr>"
  let ?km = "map_of [(''kimi-0'', ''m0''), (''kimi-1'', ''m1'')]"
  let ?tk = "\<lparr>adapter = Some ?a, markers = ?ms, markerMap = Some ?km\<rparr>"
  note ev = Doubao_generateTurnIdFromIndex_def templateString_def showInt_def showNat.simps
    digitChar_def
  have 1: "Doubao_findMarkerByStoredIndex (KStr ''abc'') ?ms (Some ?mm) = Inr (Some ''m1'')"
    using stored_key_lookup_exact_then_index [where storedKey = "KStr ''abc''" and mm = ?mm
        and ms = ?ms]
    by (simp add: ev)
  have 2: "Doubao_findMarkerByStoredIndex (KNum 1) ?ms (Some ?mm) = Inr (Some ''m1'')"
    using stored_key_lookup_exact_then_index [where storedKey = "KNum 1" and mm = ?mm
        and ms = ?ms]
    by (simp add: ev)
  have 3: "Doubao_findMarkerByStoredIndex (KNum 7) ?ms (Some ?mm) = Inr (Some ''m0'')"
    using stored_key_lookup_exact_then_index [where storedKey = "KNum 7" and mm = ?mm
        and ms = ?ms]
    by (simp add: ev)
  have 4: "Doubao_findMarkerByStoredIndex (KNum 2) ?ms (Some ?mm) = Inr None"
    using stored_key_lookup_exact_then_index [where storedKey = "KNum 2" and mm = ?mm
        and ms = ?ms]
    by (simp add: ev)
  have 5: "Doubao_findMarkerByStoredIndex (KStr ''zzz'') ?ms (Some ?mm) = Inr None"
    using stored_key_lookup_exact_then_index [where storedKey = "KStr ''zzz''" and mm = ?mm
        and ms = ?ms]
    by (simp add: ev)
  have 6: "findMarkerByNodeKey ?tm (KNum 1) = Inr (Some ''m1'')"
    using stored_key_lookup_exact_then_index [where storedKey = "KNum 1" and tm = ?tm
        and a = DoubaoAdapter and f = Doubao_findMarkerByStoredIndex] 2
    by (simp add: DoubaoAdapter_def)
  have 7: "findMarkerByNodeKey ?tk (KNum 1) = Inr (Some ''m1'')"
    using stored_key_lookup_exact_then_index [where storedKey = "KNum 1" and tm = ?tk
        and a = ?a and gen = ?gen and mm = ?km]
    by (simp add: ev)
  from 1 2 3 4 5 6 7 show ?thesis by blast
qed

section \<open>Properties of the poll\<close>

lemma poll_stop:
  "pendingRecord s = None \<or> retryCount > 10 \<Longrightarrow>
     pollForRealId g env i retryCount s = s\<lparr>pendingRecord := None\<rparr>"
  by (subst pollForRealId.simps) simp

lemma poll_bounds:
  "pendingRecord (pollForRealId g env i retryCount s) = None
   \<and> timeouts s \<le> timeouts (pollForRealId g env i retryCount s)
   \<and> timeouts (pollForRealId g env i retryCount s) \<le> timeouts s + (11 - retryCount)
   \<and> elapsed (pollForRealId g env i retryCount s)
       = elapsed s + 500 * (timeouts (pollForRealId g env i retryCount s) - timeouts s)
   \<and> (migrations (pollForRealId g env i retryCount s) = migrations s
      \<or> (\<exists>t r. migrations (pollForRealId g env i retryCount s) = migrations s @ [(t, r)]
              \<and> \<not> endsWith r (CHR ''-'' # showNat i)))"
proof (induction g env i retryCount s rule: pollForRealId.induct)
  case (1 g env i rc s)
  show ?case
  proof (cases "pendingRecord s = None \<or> rc > 10")
    case True
    then show ?thesis by (simp add: poll_stop)
  next
    case False
    then obtain p0 where pend: "pendingRecord s = Some p0" and rc: "\<not> rc > 10" by auto
    define s1 where "s1 = s\<lparr>timeouts := timeouts s + 1, elapsed := elapsed s + 500\<rparr>"
    define s2 where "s2 = s1\<lparr>pendingRecord := interference (env rc) (pendingRecord s1)\<rparr>"
    have t2: "timeouts s2 = timeouts s + 1" "elapsed s2 = elapsed s + 500"
      "migrations s2 = migrations s"
      by (simp_all add: s1_def s2_def)
    show ?thesis
    proof (cases "pendingRecord s2")
      case None
      then have "pollForRealId g env i rc s = s2"
        using pend rc by (subst pollForRealId.simps) (simp add: Let_def s1_def s2_def)
      then show ?thesis using None t2 rc by auto
    next
      case (Some pending)
      show ?thesis
      proof (cases "i < length (userTurnElements (env rc))")
        case noel: False
        then have "pollForRealId g env i rc s = s2\<lparr>pendingRecord := None\<rparr>"
          using pend rc Some
          by (subst pollForRealId.simps) (simp add: Let_def s1_def s2_def)
        then show ?thesis using t2 rc by auto
      next
        case el: True
        define nodeId where "nodeId = g (userTurnElements (env rc) ! i) i"
        show ?thesis
        proof (cases "endsWith nodeId (CHR ''-'' # showNat i)")
          case real: False
          then have "pollForRealId g env i rc s
              = s2\<lparr>migrations := migrations s2 @ [(tempId pending, nodeId)],
                     pendingRecord := None\<rparr>"
            using pend rc Some el
            by (subst pollForRealId.simps) (simp add: Let_def s1_def s2_def nodeId_def)
          then show ?thesis using t2 rc real by auto
        next
          case temp: True
          then have eq: "pollForRealId g env i rc s = pollForRealId g env i (rc + 1) s2"
            using pend rc Some el
            by (subst pollForRealId.simps) (simp add: Let_def s1_def s2_def nodeId_def)
          have ih: "pendingRecord (pollForRealId g env i (rc + 1) s2) = None
             \<and> timeouts s2 \<le> timeouts (pollForRealId g env i (rc + 1) s2)
             \<and> timeouts (pollForRealId g env i (rc + 1) s2) \<le> timeouts s2 + (11 - (rc + 1))
             \<and> elapsed (pollForRealId g env i (rc + 1) s2)
                 = elapsed s2 + 500 * (timeouts (pollForRealId g env i (rc + 1) s2) - timeouts s2)
             \<and> (migrations (pollForRealId g env i (rc + 1) s2) = migrations s2
                \<or> (\<exists>t r. migrations (pollForRealId g env i (rc + 1) s2) = migrations s2 @ [(t, r)]
                        \<and> \<not> endsWith r (CHR ''-'' # showNat i)))"
            using "1.IH" [OF False refl refl refl _ _ refl refl, of pending] Some el temp
            unfolding s2_def s1_def nodeId_def by simp
          from rc have "rc \<le> 10" by simp
          with ih show ?thesis unfolding eq t2 by auto
        qed
      qed
    qed
  qed
qed


lemma poll_exhaust:
  assumes "pendingRecord s \<noteq> None"
    and "\<forall>n. retryCount \<le> n \<longrightarrow> n \<le> 10 \<longrightarrow>
           (\<forall>p. interference (env n) (Some p) \<noteq> None)
         \<and> i < length (userTurnElements (env n))
         \<and> endsWith (g (userTurnElements (env n) ! i) i) (CHR ''-'' # showNat i)"
  shows "pollForRealId g env i retryCount s
     = s\<lparr>pendingRecord := None,
          timeouts := timeouts s + (11 - retryCount),
          elapsed := elapsed s + 500 * (11 - retryCount)\<rparr>"
  using assms
proof (induction g env i retryCount s rule: pollForRealId.induct)
  case (1 g env i rc s)
  show ?case
  proof (cases "rc > 10")
    case True
    then show ?thesis by (simp add: poll_stop)
  next
    case False
    from "1.prems"(1) obtain p0 where pend: "pendingRecord s = Some p0" by auto
    from False "1.prems"(2) have tick:
      "\<forall>p. interference (env rc) (Some p) \<noteq> None"
      "i < length (userTurnElements (env rc))"
      "endsWith (g (userTurnElements (env rc) ! i) i) (CHR ''-'' # showNat i)"
      by simp_all
    define s2 where "s2 = s\<lparr>timeouts := timeouts s + 1, elapsed := elapsed s + 500,
      pendingRecord := interference (env rc) (Some p0)\<rparr>"
    from tick(1) obtain p1 where p1: "interference (env rc) (Some p0) = Some p1" by auto
    have eq: "pollForRealId g env i rc s = pollForRealId g env i (rc + 1) s2"
      using False pend p1 tick(2,3)
      by (subst pollForRealId.simps) (simp add: Let_def s2_def)
    have nc: "\<not> (pendingRecord s = None \<or> 10 < rc)" using False pend by simp
    have "pollForRealId g env i (rc + 1) s2
        = s2\<lparr>pendingRecord := None,
              timeouts := timeouts s2 + (11 - (rc + 1)),
              elapsed := elapsed s2 + 500 * (11 - (rc + 1))\<rparr>"
      using "1.IH" [OF nc refl refl refl _ _ refl refl, of p1] pend p1 tick(2,3) "1.prems"(2)
      unfolding s2_def by simp
    moreover from False have "Suc (timeouts s + (10 - rc)) = timeouts s + (11 - rc)"
      "elapsed s + 500 + 500 * (10 - rc) = elapsed s + 500 * (11 - rc)"
      by simp_all
    ultimately show ?thesis unfolding eq by (simp add: s2_def)
  qed
qed

lemma runMigrations_Nil: "runMigrations conversationKey [] st = st"
  by (simp add: runMigrations_def)

text \<open>
  C3. Whatever the timers find, the poll ends with the pending record cleared, has
  armed at most \<open>11 - retryCount\<close> timers (11 from the initial call), each of 500 ms,
  and with a retry count above 10 it arms none and only clears the pending record. If
  at every tick the pending record is still set, the element is still there and its id
  still ends in the index, the poll arms all 11 timers, waits 5500 ms in total, issues
  no migration and clears the pending record, so the time record keeps the entry
  under the temporary id. The recursion is on \<open>11 - retryCount\<close>, so the poll ends.
\<close>

theorem pollForRealId_bounded:
  "pendingRecord (pollForRealId g env i retryCount s) = None
   \<and> timeouts (pollForRealId g env i retryCount s) \<le> timeouts s + (11 - retryCount)
   \<and> elapsed (pollForRealId g env i retryCount s)
       = elapsed s + 500 * (timeouts (pollForRealId g env i retryCount s) - timeouts s)
   \<and> (retryCount > 10 \<longrightarrow> pollForRealId g env i retryCount s = s\<lparr>pendingRecord := None\<rparr>)
   \<and> ((\<forall>n. n \<le> 10 \<longrightarrow>
           (\<forall>p. interference (env n) (Some p) \<noteq> None)
         \<and> i < length (userTurnElements (env n))
         \<and> endsWith (g (userTurnElements (env n) ! i) i) (CHR ''-'' # showNat i))
       \<longrightarrow> pollForRealId g env i 0
             \<lparr>pendingRecord = Some p, migrations = [], timeouts = 0, elapsed = 0\<rparr>
           = \<lparr>pendingRecord = None, migrations = [], timeouts = 11, elapsed = 5500\<rparr>
         \<and> runMigrations conversationKey
             (migrations (pollForRealId g env i 0
                \<lparr>pendingRecord = Some p, migrations = [], timeouts = 0, elapsed = 0\<rparr>)) st
           = st)"
proof (intro conjI impI)
  note b = poll_bounds [of g env i retryCount s]
  show "pendingRecord (pollForRealId g env i retryCount s) = None" using b by blast
  show "timeouts (pollForRealId g env i retryCount s) \<le> timeouts s + (11 - retryCount)"
    using b by blast
  show "elapsed (pollForRealId g env i retryCount s)
       = elapsed s + 500 * (timeouts (pollForRealId g env i retryCount s) - timeouts s)"
    using b by blast
  show "pollForRealId g env i retryCount s = s\<lparr>pendingRecord := None\<rparr>" if "retryCount > 10"
    using that by (simp add: poll_stop)
next
  assume h: "\<forall>n. n \<le> 10 \<longrightarrow>
           (\<forall>p. interference (env n) (Some p) \<noteq> None)
         \<and> i < length (userTurnElements (env n))
         \<and> endsWith (g (userTurnElements (env n) ! i) i) (CHR ''-'' # showNat i)"
  let ?s = "\<lparr>pendingRecord = Some p, migrations = [], timeouts = 0, elapsed = 0\<rparr>"
  have "pollForRealId g env i 0 ?s
     = ?s\<lparr>pendingRecord := None, timeouts := timeouts ?s + (11 - 0),
           elapsed := elapsed ?s + 500 * (11 - 0)\<rparr>"
    by (rule poll_exhaust) (use h in simp_all)
  then show e: "pollForRealId g env i 0 ?s
           = \<lparr>pendingRecord = None, migrations = [], timeouts = 11, elapsed = 5500\<rparr>"
    by simp
  show "runMigrations conversationKey (migrations (pollForRealId g env i 0 ?s)) st = st"
    by (simp add: e runMigrations_Nil)
qed

theorem pollForRealId_bounded_witness:
  "pollForRealId (\<lambda>e n. ''gemini-'' @ (case e of None \<Rightarrow> showNat n | Some x \<Rightarrow> x))
     (\<lambda>n. \<lparr>interference = (\<lambda>p. p), userTurnElements = [None :: string option]\<rparr>) 0 0
     \<lparr>pendingRecord = Some \<lparr>index = 0, tempId = ''gemini-0''\<rparr>, migrations = [],
      timeouts = 0, elapsed = 0\<rparr>
   = \<lparr>pendingRecord = None, migrations = [], timeouts = 11, elapsed = 5500\<rparr>"
proof -
  let ?g = "\<lambda>e n. ''gemini-'' @ (case e of None \<Rightarrow> showNat n | Some x \<Rightarrow> x)"
  let ?env = "\<lambda>n :: nat. \<lparr>interference = (\<lambda>p. p), userTurnElements = [None :: string option]\<rparr>"
  have "\<forall>n. n \<le> 10 \<longrightarrow>
           (\<forall>p. interference (?env n) (Some p) \<noteq> None)
         \<and> 0 < length (userTurnElements (?env n))
         \<and> endsWith (?g (userTurnElements (?env n) ! 0) 0) (CHR ''-'' # showNat 0)"
    by (simp add: endsWith_def showNat.simps digitChar_def)
  with pollForRealId_bounded [where g = ?g and env = ?env and i = 0
      and p = "\<lparr>index = 0, tempId = ''gemini-0''\<rparr>"]
  show ?thesis by blast
qed

lemma poll_real_id_example:
  "pollForRealId (\<lambda>e n. ''gemini-'' @ (case e of None \<Rightarrow> showNat n | Some x \<Rightarrow> x))
     (\<lambda>n. \<lparr>interference = (\<lambda>p. p),
            userTurnElements = [if n < 2 then None else Some ''abc123'']\<rparr>) 0 0
     \<lparr>pendingRecord = Some \<lparr>index = 0, tempId = ''gemini-0''\<rparr>, migrations = [],
      timeouts = 0, elapsed = 0\<rparr>
   = \<lparr>pendingRecord = None, migrations = [(''gemini-0'', ''gemini-abc123'')],
      timeouts = 3, elapsed = 1500\<rparr>"
  by (simp add: pollForRealId.simps endsWith_def showNat.simps digitChar_def)

section \<open>Properties of the conversation container\<close>

lemma ancestorPath_snoc: "ancestorPath (xs @ [x]) = ancestorPath xs @ [xs]"
proof -
  have "prefixes xs = butlast (prefixes xs) @ [last (prefixes xs)]"
    by (rule append_butlast_last_id [symmetric]) simp
  then show ?thesis by (simp add: ancestorPath_def)
qed

lemma ancestorPath_take: "ancestorPath p = map (\<lambda>n. take n p) [0..<length p]"
proof (induction p rule: rev_induct)
  case Nil
  then show ?case by (simp add: ancestorPath_def)
next
  case (snoc x xs)
  then show ?case by (simp add: ancestorPath_snoc)
qed

lemma set_ancestorPath: "a \<in> set (ancestorPath p) \<longleftrightarrow> strict_prefix a p"
proof
  assume "a \<in> set (ancestorPath p)"
  then obtain n where n: "n < length p" "a = take n p" by (auto simp: ancestorPath_take)
  have "prefix a p" using n(2) by (simp add: take_is_prefix)
  moreover have "a \<noteq> p" using n by auto
  ultimately show "strict_prefix a p" by (simp add: strict_prefix_def)
next
  assume s: "strict_prefix a p"
  then have "length a < length p" by (simp add: prefix_length_less)
  moreover from s obtain zs where "p = a @ zs" by (auto simp: strict_prefix_def prefix_def)
  then have "a = take (length a) p" by simp
  ultimately show "a \<in> set (ancestorPath p)" unfolding ancestorPath_take by (metis (mono_tags, lifting) atLeastLessThan_iff image_eqI le0 list.set_map set_upt)
qed

lemma chain_prefix:
  assumes "prefix xs (ancestorPath p)"
  shows "xs = map (\<lambda>n. take n p) [0..<length xs]" "length xs \<le> length p"
proof -
  from assms have l: "length xs \<le> length (ancestorPath p)" by (rule prefix_length_le)
  then show lp: "length xs \<le> length p" by (simp add: ancestorPath_take)
  from assms obtain zs where "ancestorPath p = xs @ zs" by (auto simp: prefix_def)
  then have "xs = take (length xs) (ancestorPath p)" by simp
  also have "\<dots> = map (\<lambda>n. take n p) (take (length xs) [0..<length p])"
    by (simp add: ancestorPath_take take_map)
  also have "take (length xs) [0..<length p] = [0..<length xs]"
    using lp by (simp add: take_upt)
  finally show "xs = map (\<lambda>n. take n p) [0..<length xs]" .
qed

lemma chain_nth:
  assumes "prefix xs (ancestorPath p)" "n < length xs"
  shows "xs ! n = take n p"
proof -
  have "xs ! n = map (\<lambda>n. take n p) [0..<length xs] ! n"
    using chain_prefix(1) [OF assms(1)] by simp
  then show ?thesis using assms(2) by simp
qed

lemma chain_last:
  assumes "prefix xs (ancestorPath p)" "a \<in> set xs"
  shows "prefix a (last xs)"
proof -
  from assms(2) have ne: "xs \<noteq> []" by auto
  from assms(2) obtain n where n: "n < length xs" "a = xs ! n" by (auto simp: in_set_conv_nth)
  then have a: "a = take n p" by (simp add: chain_nth [OF assms(1)])
  have "last xs = xs ! (length xs - 1)" using ne by (rule last_conv_nth)
  also have "\<dots> = take (length xs - 1) p"
    using ne by (simp add: chain_nth [OF assms(1)])
  finally have l: "last xs = take (length xs - 1) p" .
  have "take n p = take n (take (length xs - 1) p)" using n(1) by (simp add: min_def)
  then have "prefix (take n p) (take (length xs - 1) p)" by (metis take_is_prefix)
  then show ?thesis by (simp add: a l)
qed

lemma lcp_chain:
  assumes "prefix xs (ancestorPath p)"
  shows "set (longest_common_prefix xs (ancestorPath q)) = set xs \<inter> set (ancestorPath q)"
proof
  show "set (longest_common_prefix xs (ancestorPath q)) \<subseteq> set xs \<inter> set (ancestorPath q)"
    using longest_common_prefix_prefix1 [of xs "ancestorPath q"]
      longest_common_prefix_prefix2 [of xs "ancestorPath q"]
    by (auto dest: set_mono_prefix)
next
  show "set xs \<inter> set (ancestorPath q) \<subseteq> set (longest_common_prefix xs (ancestorPath q))"
  proof
    fix a assume "a \<in> set xs \<inter> set (ancestorPath q)"
    then have ax: "a \<in> set xs" and aq: "strict_prefix a q" by (simp_all add: set_ancestorPath)
    from ax obtain n where n: "n < length xs" "a = xs ! n" by (auto simp: in_set_conv_nth)
    then have a: "a = take n p" by (simp add: chain_nth [OF assms])
    have lp: "length xs \<le> length p" by (rule chain_prefix(2) [OF assms])
    from a n(1) lp have la: "length a = n" by simp
    from aq have nq: "n < length q" using la by (auto dest: prefix_length_less)
    from aq obtain zs where "q = a @ zs" by (auto simp: strict_prefix_def prefix_def)
    then have aq': "a = take n q" using la by simp
    have "take (Suc n) xs = map (\<lambda>j. take j p) [0..<Suc n]"
    proof -
      have "take (Suc n) xs = take (Suc n) (map (\<lambda>j. take j p) [0..<length xs])"
        using chain_prefix(1) [OF assms] by simp
      also have "\<dots> = map (\<lambda>j. take j p) (take (Suc n) [0..<length xs])" by (simp add: take_map)
      also have "take (Suc n) [0..<length xs] = [0..<Suc n]" using n(1) by (simp add: take_upt)
      finally show ?thesis .
    qed
    also have "\<dots> = map (\<lambda>j. take j q) [0..<Suc n]"
    proof (rule map_cong [OF refl])
      fix j assume "j \<in> set [0..<Suc n]"
      then have j: "j \<le> n" by auto
      have "take j p = take j (take n p)" using j by (simp add: min_def)
      also have "\<dots> = take j (take n q)" using a aq' by simp
      also have "\<dots> = take j q" using j by (simp add: min_def)
      finally show "take j p = take j q" .
    qed
    also have "\<dots> = take (Suc n) (ancestorPath q)"
      using nq by (simp add: ancestorPath_take take_map take_upt)
    finally have "take (Suc n) xs = take (Suc n) (ancestorPath q)" .
    then have "prefix (take (Suc n) xs) (ancestorPath q)" by (metis take_is_prefix)
    moreover have "prefix (take (Suc n) xs) xs" by (rule take_is_prefix)
    ultimately have "prefix (take (Suc n) xs) (longest_common_prefix xs (ancestorPath q))"
      by (rule longest_common_prefix_max_prefix [rotated])
    moreover have "a \<in> set (take (Suc n) xs)"
      using n by (auto simp: in_set_conv_nth intro!: exI [of _ n])
    ultimately show "a \<in> set (longest_common_prefix xs (ancestorPath q))"
      by (auto dest: set_mono_prefix)
  qed
qed

lemma fold_lcp_chain:
  assumes "prefix xs (ancestorPath p)"
  shows "prefix (foldl longest_common_prefix xs (map ancestorPath ms)) (ancestorPath p)
     \<and> set (foldl longest_common_prefix xs (map ancestorPath ms))
         = set xs \<inter> {a. \<forall>m \<in> set ms. strict_prefix a m}"
  using assms
proof (induction ms arbitrary: xs)
  case Nil
  then show ?case by simp
next
  case (Cons m ms)
  let ?ys = "longest_common_prefix xs (ancestorPath m)"
  have p: "prefix ?ys (ancestorPath p)"
    using longest_common_prefix_prefix1 [of xs "ancestorPath m"] Cons.prems
    by (rule prefix_order.trans)
  have "set ?ys = set xs \<inter> set (ancestorPath m)" by (rule lcp_chain [OF Cons.prems])
  with Cons.IH [OF p] show ?case by (auto simp: set_ancestorPath)
qed

lemma matchesInList_nonempty: "m \<in> set (matchesInList sel i cs) \<Longrightarrow> m \<noteq> []"
  by (induction cs arbitrary: i) auto


lemma container_some:
  assumes "querySelectorAll sel doc = m0 # ms"
  shows "\<exists>common. common \<noteq> [] \<and> findConversationContainer sel doc = Some (last common)
           \<and> prefix common (ancestorPath m0)
           \<and> set common = {a. \<forall>m \<in> set (m0 # ms). strict_prefix a m}"
proof -
  let ?common = "foldl longest_common_prefix (ancestorPath m0) (map ancestorPath ms)"
  from fold_lcp_chain [of "ancestorPath m0" m0 ms]
  have p: "prefix ?common (ancestorPath m0)"
    and s: "set ?common = {a. \<forall>m \<in> set (m0 # ms). strict_prefix a m}"
    by (auto simp: set_ancestorPath)
  have "\<forall>m \<in> set (m0 # ms). m \<noteq> []"
    using assms matchesInList_nonempty [of _ sel 0 doc] by (auto simp: querySelectorAll_def)
  then have "[] \<in> set ?common" unfolding s by (auto simp: strict_prefix_def)
  then have ne: "?common \<noteq> []" by auto
  then have "findConversationContainer sel doc = Some (last ?common)"
    using assms by (simp add: findConversationContainer_def Let_def)
  with ne p s show ?thesis by blast
qed

text \<open>
  C1. When the selector matches no element, no container is returned. When it matches
  at least one, a container is returned, it is an ancestor of every matched element,
  and every node that is an ancestor of all matched elements is the container or an
  ancestor of it, so the container is the deepest common ancestor. With exactly one
  match the container is the parent of the matched element.
\<close>

theorem container_is_deepest_common_ancestor:
  "(querySelectorAll sel doc = [] \<longrightarrow> findConversationContainer sel doc = None)
   \<and> (querySelectorAll sel doc \<noteq> [] \<longrightarrow>
        (\<exists>c. findConversationContainer sel doc = Some c
            \<and> (\<forall>m \<in> set (querySelectorAll sel doc). isAncestorOf c m)
            \<and> (\<forall>a. (\<forall>m \<in> set (querySelectorAll sel doc). isAncestorOf a m)
                    \<longrightarrow> a = c \<or> isAncestorOf a c)))
   \<and> (\<forall>m. querySelectorAll sel doc = [m] \<longrightarrow>
        findConversationContainer sel doc = Some (butlast m))"
proof (intro conjI impI allI)
  assume "querySelectorAll sel doc = []"
  then show "findConversationContainer sel doc = None"
    by (simp add: findConversationContainer_def)
next
  assume "querySelectorAll sel doc \<noteq> []"
  then obtain m0 ms where q: "querySelectorAll sel doc = m0 # ms"
    by (cases "querySelectorAll sel doc") auto
  from container_some [OF q] obtain common where c: "common \<noteq> []"
    "findConversationContainer sel doc = Some (last common)"
    "prefix common (ancestorPath m0)"
    "set common = {a. \<forall>m \<in> set (m0 # ms). strict_prefix a m}"
    by blast
  have "last common \<in> set common" using c(1) by simp
  then have 1: "\<forall>m \<in> set (querySelectorAll sel doc). isAncestorOf (last common) m"
    unfolding c(4) q by (simp add: isAncestorOf_def)
  have 2: "a = last common \<or> isAncestorOf a (last common)"
    if "\<forall>m \<in> set (querySelectorAll sel doc). isAncestorOf a m" for a
  proof -
    from that have "a \<in> set common" unfolding c(4) q by (simp add: isAncestorOf_def)
    then have "prefix a (last common)" by (rule chain_last [OF c(3)])
    then show ?thesis by (auto simp: isAncestorOf_def strict_prefix_def)
  qed
  from c(2) 1 2 show "\<exists>c. findConversationContainer sel doc = Some c
            \<and> (\<forall>m \<in> set (querySelectorAll sel doc). isAncestorOf c m)
            \<and> (\<forall>a. (\<forall>m \<in> set (querySelectorAll sel doc). isAncestorOf a m)
                    \<longrightarrow> a = c \<or> isAncestorOf a c)"
    by blast
next
  fix m assume q: "querySelectorAll sel doc = [m]"
  then have ne: "m \<noteq> []"
    using matchesInList_nonempty [of m sel 0 doc] by (simp add: querySelectorAll_def)
  then have "ancestorPath m \<noteq> []" by (simp add: ancestorPath_take)
  moreover have "last (ancestorPath m) = butlast m"
    using ne by (simp add: ancestorPath_take last_map butlast_conv_take)
  ultimately show "findConversationContainer sel doc = Some (butlast m)"
    using q by (simp add: findConversationContainer_def)
qed

theorem container_is_deepest_common_ancestor_witness:
  "querySelectorAll (\<lambda>t. t = ''msg'')
     [Element ''html'' [Element ''body''
        [Element ''root'' [Element ''msg'' [], Element ''other'' [], Element ''msg'' []],
         Element ''nav'' []]]]
     = [[0, 0, 0, 0], [0, 0, 0, 2]]
   \<and> findConversationContainer (\<lambda>t. t = ''msg'')
     [Element ''html'' [Element ''body''
        [Element ''root'' [Element ''msg'' [], Element ''other'' [], Element ''msg'' []],
         Element ''nav'' []]]]
     = Some [0, 0, 0]
   \<and> findConversationContainer (\<lambda>t. t = ''msg'')
     [Element ''html'' [Element ''body'' [Element ''nav'' []]]] = None"
proof -
  let ?sel = "\<lambda>t. t = ''msg''"
  let ?doc = "[Element ''html'' [Element ''body''
        [Element ''root'' [Element ''msg'' [], Element ''other'' [], Element ''msg'' []],
         Element ''nav'' []]]]"
  let ?none = "[Element ''html'' [Element ''body'' [Element ''nav'' []]]]"
  have q: "querySelectorAll ?sel ?doc = [[0, 0, 0, 0], [0, 0, 0, 2]]"
    by (simp add: querySelectorAll_def)
  have q0: "querySelectorAll ?sel ?none = []"
    by (simp add: querySelectorAll_def)
  from container_is_deepest_common_ancestor [of ?sel ?doc] q
  obtain c where c: "findConversationContainer ?sel ?doc = Some c"
    "isAncestorOf c [0, 0, 0, 0]" "isAncestorOf c [0, 0, 0, 2]"
    "\<forall>a. isAncestorOf a [0, 0, 0, 0] \<and> isAncestorOf a [0, 0, 0, 2] \<longrightarrow> a = c \<or> isAncestorOf a c"
    by auto
  have "isAncestorOf [0, 0, 0] [0, 0, 0, 0]" "isAncestorOf [0, 0, 0] [0, 0, 0, 2]"
    by (simp_all add: isAncestorOf_def strict_prefix_def)
  with c(4) have "[0, 0, 0] = c \<or> isAncestorOf [0, 0, 0] c" by blast
  moreover have "\<not> isAncestorOf [0, 0, 0] c"
  proof
    assume a: "isAncestorOf [0, 0, 0] c"
    from c(2) c(3) have "prefix c [0, 0, 0, 0]" "prefix c [0, 0, 0, 2]" "c \<noteq> [0, 0, 0, 0]"
      by (simp_all add: isAncestorOf_def strict_prefix_def)
    moreover from a have "prefix [0, 0, 0] c" "c \<noteq> [0, 0, 0]"
      by (auto simp: isAncestorOf_def strict_prefix_def)
    ultimately show False
      by (auto simp: prefix_def Cons_eq_append_conv append_eq_Cons_conv)
  qed
  ultimately have "c = [0, 0, 0]" by auto
  with c(1) q container_is_deepest_common_ancestor [of ?sel ?none] q0
  show ?thesis by simp
qed

section \<open>Properties of the migrations at load\<close>

lemma apiCalls_simps [simp]:
  "apiCalls (logCall c b) = apiCalls b @ [c]"
  "apiCalls (localSet items b) = apiCalls b @ [LocalSet (map fst items)]"
  "apiCalls (localRemove ks b) = apiCalls b @ [LocalRemove ks]"
  "apiCalls (syncClear b) = apiCalls b @ [SyncClear]"
  by (simp_all add: logCall_def localSet_def localRemove_def syncClear_def)

lemma chromeStorage_simps [simp]:
  "chromeStorage (logCall c b) = chromeStorage b"
  "chromeStorage (localSet items b) = chromeStorage b"
  "chromeStorage (localRemove ks b) = chromeStorage b"
  "chromeStorage (syncClear b) = chromeStorage b"
  by (simp_all add: logCall_def localSet_def localRemove_def syncClear_def)

lemma syncArea_simps [simp]:
  "syncArea (logCall c b) = syncArea b"
  "syncArea (localSet items b) = syncArea b"
  "syncArea (localRemove ks b) = syncArea b"
  by (simp_all add: logCall_def localSet_def localRemove_def)

lemma migrateLocalKeys_calls:
  assumes "chromeStorage b"
  shows "\<exists>r. apiCalls (migrateLocalKeys b)
              = apiCalls b @ [LocalGet [''biwhckdj'', ''prompts'']] @ r
           \<and> (r = [] \<or> r = [LocalRemove [''biwhckdj'']]
              \<or> r = [LocalSet [''prompts''], LocalRemove [''biwhckdj'']])"
  using assms by (auto simp: migrateLocalKeys_def Let_def split: option.splits)

lemma migrateLocalKeys_frame:
  "syncArea (migrateLocalKeys b) = syncArea b"
  "chromeStorage (migrateLocalKeys b) = chromeStorage b"
  by (auto simp: migrateLocalKeys_def Let_def split: option.splits)

lemma syncToLocal_calls:
  "\<exists>c. apiCalls (syncToLocal b) = apiCalls b @ c
       \<and> (c = [] \<or> c = [SyncGetAll] \<or> (\<exists>ks. c = [SyncGetAll, LocalSet ks, SyncClear]))"
  by (auto simp: syncToLocal_def Let_def split: option.splits)

lemma copy_calls:
  "\<exists>c. apiCalls (migrateFromSyncToLocal_copy b) = apiCalls b @ c
       \<and> (c = [] \<or> c = [SyncGetAll] \<or> (\<exists>ks. c = [SyncGetAll, LocalSet ks, SyncClear]))"
  by (auto simp: migrateFromSyncToLocal_copy_def Let_def split: option.splits)

lemma copy_frame: "chromeStorage (migrateFromSyncToLocal_copy b) = chromeStorage b"
  by (auto simp: migrateFromSyncToLocal_copy_def Let_def split: option.splits)

lemma moveFamily_calls:
  assumes "moveFamily isStar arrayKey now allItems ks b = Inr b'"
  shows "\<exists>l. apiCalls b' = apiCalls b @ l
           \<and> (l = [] \<or> l = [LocalGet [arrayKey], LocalSet [arrayKey]])"
  using assms by (auto simp: moveFamily_def Let_def split: if_splits)

lemma migrateFromLegacy_calls:
  assumes "chromeStorage b"
  shows "\<exists>l. apiCalls (migrateFromLegacy now b) = apiCalls b @ [LocalGetAll] @ l
           \<and> SyncGetAll \<notin> set l \<and> SyncClear \<notin> set l"
proof -
  define b1 where "b1 = logCall LocalGetAll b"
  define allItems where "allItems = localArea b1"
  define starKeys where
    "starKeys = filter (\<lambda>k. startsWith k ''chatTimelineStar:'') (map fst allItems)"
  define pinKeys where
    "pinKeys = filter (\<lambda>k. startsWith k ''chatTimelinePin:'') (map fst allItems)"
  have c1: "apiCalls b1 = apiCalls b @ [LocalGetAll]" by (simp add: b1_def)
  show ?thesis
  proof (cases "starKeys = [] \<and> pinKeys = []")
    case True
    then have "migrateFromLegacy now b = b1"
      using assms
      by (simp add: migrateFromLegacy_def Let_def b1_def allItems_def starKeys_def pinKeys_def)
    then show ?thesis using c1 by simp
  next
    case False
    show ?thesis
    proof (cases "moveFamily True ''aitStars'' now allItems starKeys b1")
      case (Inl e)
      then have "migrateFromLegacy now b = logCall (LocalGet [''aitStars'']) b1"
        using assms False
        by (auto simp: migrateFromLegacy_def Let_def b1_def allItems_def starKeys_def pinKeys_def)
      then show ?thesis using c1 by simp
    next
      case (Inr b2)
      from moveFamily_calls [OF Inr] obtain l2 where l2: "apiCalls b2 = apiCalls b1 @ l2"
        "l2 = [] \<or> l2 = [LocalGet [''aitStars''], LocalSet [''aitStars'']]" by blast
      show ?thesis
      proof (cases "moveFamily False ''aitPins'' now allItems pinKeys b2")
        case (Inl e)
        then have "migrateFromLegacy now b = logCall (LocalGet [''aitPins'']) b2"
          using assms False Inr
          by (auto simp: migrateFromLegacy_def Let_def b1_def allItems_def starKeys_def
              pinKeys_def)
        then have "apiCalls (migrateFromLegacy now b)
            = apiCalls b @ [LocalGetAll] @ (l2 @ [LocalGet [''aitPins'']])"
          using c1 l2(1) by simp
        moreover have "SyncGetAll \<notin> set (l2 @ [LocalGet [''aitPins'']])"
          "SyncClear \<notin> set (l2 @ [LocalGet [''aitPins'']])"
          using l2(2) by auto
        ultimately show ?thesis by blast
      next
        case b3: (Inr b3)
        from moveFamily_calls [OF b3] obtain l3 where l3: "apiCalls b3 = apiCalls b2 @ l3"
          "l3 = [] \<or> l3 = [LocalGet [''aitPins''], LocalSet [''aitPins'']]" by blast
        have "migrateFromLegacy now b = localRemove (starKeys @ pinKeys) b3"
          using assms False Inr b3
          by (auto simp: migrateFromLegacy_def Let_def b1_def allItems_def starKeys_def
              pinKeys_def)
        then have "apiCalls (migrateFromLegacy now b)
            = apiCalls b @ [LocalGetAll] @ (l2 @ l3 @ [LocalRemove (starKeys @ pinKeys)])"
          using c1 l2(1) l3(1) by simp
        moreover have "SyncGetAll \<notin> set (l2 @ l3 @ [LocalRemove (starKeys @ pinKeys)])"
          "SyncClear \<notin> set (l2 @ l3 @ [LocalRemove (starKeys @ pinKeys)])"
          using l2(2) l3(2) by auto
        ultimately show ?thesis by blast
      qed
    qed
  qed
qed

lemma map_of_foldl_update:
  "distinct (map fst items) \<Longrightarrow>
     map_of (foldl (\<lambda>l e. AList.update (fst e) (snd e) l) l0 items) k
       = (case map_of items k of Some v \<Rightarrow> Some v | None \<Rightarrow> map_of l0 k)"
proof (induction items arbitrary: l0)
  case Nil
  then show ?case by simp
next
  case (Cons e items)
  then have d: "distinct (map fst items)" and n: "fst e \<notin> fst ` set items" by auto
  from n have none: "map_of items (fst e) = None" by (simp add: map_of_eq_None_iff)
  show ?case
    using Cons.IH [OF d, of "AList.update (fst e) (snd e) l0"] none
    by (cases e) (auto simp: update_conv' split: option.splits)
qed

lemma syncToLocal_stars:
  assumes "syncArea b = Some syncData" "distinct (map fst syncData)"
    and "filter (\<lambda>e. startsWith (fst e) ''chatTimelineStar:'' \<and> isObject (snd e)) syncData \<noteq> []"
  shows "map_of (localArea (syncToLocal b)) ''chatTimelineStars''
     = Some (JArr (map (\<lambda>e. withKey (fst e) (snd e))
                (filter (\<lambda>e. startsWith (fst e) ''chatTimelineStar:'' \<and> isObject (snd e))
                   syncData)))"
proof -
  define stars where "stars = map (\<lambda>e. withKey (fst e) (snd e))
                (filter (\<lambda>e. startsWith (fst e) ''chatTimelineStar:'' \<and> isObject (snd e))
                   syncData)"
  define pins where "pins = map (\<lambda>e. withKey (fst e) (snd e))
                    (filter (\<lambda>e. \<not> startsWith (fst e) ''chatTimelineStar:''
                                 \<and> startsWith (fst e) ''chatTimelinePin:'' \<and> isObject (snd e))
                       syncData)"
  define other where "other = filter (\<lambda>e. \<not> startsWith (fst e) ''chatTimelineStar:''
                               \<and> \<not> startsWith (fst e) ''chatTimelinePin:'') syncData"
  define ws where "ws = AList.update ''chatTimelineStars'' (JArr stars) other"
  define new where
    "new = (if pins \<noteq> [] then AList.update ''chatTimelinePins'' (JArr pins) ws else ws)"
  from assms(3) have ne: "syncData \<noteq> []" "stars \<noteq> []" by (auto simp: stars_def)
  have "distinct (map fst other)" using assms(2) by (simp add: other_def distinct_map_filter)
  then have d: "distinct (map fst new)" by (simp add: new_def ws_def distinct_update)
  have m: "map_of new ''chatTimelineStars'' = Some (JArr stars)"
    by (simp add: new_def ws_def update_conv')
  have "syncToLocal b = syncClear (localSet new (logCall SyncGetAll b))"
    using assms(1) ne
    by (simp add: syncToLocal_def Let_def new_def ws_def other_def pins_def stars_def)
  then have "localArea (syncToLocal b)
      = foldl (\<lambda>l e. AList.update (fst e) (snd e) l) (localArea b) new"
    by (simp add: syncClear_def localSet_def logCall_def)
  then show ?thesis unfolding stars_def [symmetric] by (simp add: map_of_foldl_update [OF d] m)
qed

text \<open>
  C8 (amended). In the loader that has the key-rename migration,
  \<^verbatim>\<open>migrateFromSyncToLocal\<close> is \<^verbatim>\<open>migrateLocalKeys\<close> followed by the scope migration:
  the storage calls of the key rename (one read of the two keys, then at most a write
  of \<^verbatim>\<open>prompts\<close> and a removal of \<^verbatim>\<open>biwhckdj\<close>) all come before the first access to
  the synced scope, and the scope migration's calls (read of the synced scope, one
  write to the local scope, clearing of the synced scope) end the sequence. The scope
  migration itself turns the per-record star entries of the synced scope into the
  array stored under \<^verbatim>\<open>chatTimelineStars\<close>. In the loader that has the record-shape
  migration, the calls of the scope migration all come before the first call of
  \<^verbatim>\<open>migrateFromLegacy\<close>, which never touches the synced scope.
\<close>

theorem migrations_run_in_code_order:
  "chromeStorage b \<longrightarrow>
     migrateFromSyncToLocal b = syncToLocal (migrateLocalKeys b)
   \<and> (\<exists>r c. apiCalls (migrateFromSyncToLocal b)
              = apiCalls b @ [LocalGet [''biwhckdj'', ''prompts'']] @ r @ c
           \<and> (r = [] \<or> r = [LocalRemove [''biwhckdj'']]
              \<or> r = [LocalSet [''prompts''], LocalRemove [''biwhckdj'']])
           \<and> (c = [] \<or> c = [SyncGetAll] \<or> (\<exists>ks. c = [SyncGetAll, LocalSet ks, SyncClear])))
   \<and> (\<exists>c l. apiCalls (loadLegacy now b) = apiCalls b @ c @ [LocalGetAll] @ l
           \<and> (c = [] \<or> c = [SyncGetAll] \<or> (\<exists>ks. c = [SyncGetAll, LocalSet ks, SyncClear]))
           \<and> SyncGetAll \<notin> set l \<and> SyncClear \<notin> set l)
   \<and> (\<forall>syncData. syncArea b = Some syncData \<longrightarrow> distinct (map fst syncData) \<longrightarrow>
          filter (\<lambda>e. startsWith (fst e) ''chatTimelineStar:'' \<and> isObject (snd e)) syncData \<noteq> []
          \<longrightarrow> map_of (localArea (migrateFromSyncToLocal b)) ''chatTimelineStars''
                = Some (JArr (map (\<lambda>e. withKey (fst e) (snd e))
                     (filter (\<lambda>e. startsWith (fst e) ''chatTimelineStar:'' \<and> isObject (snd e))
                        syncData))))"
proof (intro impI conjI allI)
  assume ch: "chromeStorage b"
  show "map_of (localArea (migrateFromSyncToLocal b)) ''chatTimelineStars''
                = Some (JArr (map (\<lambda>e. withKey (fst e) (snd e))
                     (filter (\<lambda>e. startsWith (fst e) ''chatTimelineStar:'' \<and> isObject (snd e))
                        syncData)))"
    if "syncArea b = Some syncData" "distinct (map fst syncData)"
      "filter (\<lambda>e. startsWith (fst e) ''chatTimelineStar:'' \<and> isObject (snd e)) syncData \<noteq> []"
    for syncData
    using ch that
    by (simp add: migrateFromSyncToLocal_def syncToLocal_stars migrateLocalKeys_frame)
  show eq: "migrateFromSyncToLocal b = syncToLocal (migrateLocalKeys b)"
    using ch by (simp add: migrateFromSyncToLocal_def)
  from migrateLocalKeys_calls [OF ch] obtain r where
    r: "apiCalls (migrateLocalKeys b) = apiCalls b @ [LocalGet [''biwhckdj'', ''prompts'']] @ r"
      "r = [] \<or> r = [LocalRemove [''biwhckdj'']]
         \<or> r = [LocalSet [''prompts''], LocalRemove [''biwhckdj'']]"
    by blast
  from syncToLocal_calls [of "migrateLocalKeys b"] obtain c where
    c: "apiCalls (syncToLocal (migrateLocalKeys b)) = apiCalls (migrateLocalKeys b) @ c"
      "c = [] \<or> c = [SyncGetAll] \<or> (\<exists>ks. c = [SyncGetAll, LocalSet ks, SyncClear])"
    by blast
  have "apiCalls (migrateFromSyncToLocal b)
      = apiCalls b @ [LocalGet [''biwhckdj'', ''prompts'']] @ r @ c"
    by (simp add: eq c(1) r(1))
  with r(2) c(2) show "\<exists>r c. apiCalls (migrateFromSyncToLocal b)
              = apiCalls b @ [LocalGet [''biwhckdj'', ''prompts'']] @ r @ c
           \<and> (r = [] \<or> r = [LocalRemove [''biwhckdj'']]
              \<or> r = [LocalSet [''prompts''], LocalRemove [''biwhckdj'']])
           \<and> (c = [] \<or> c = [SyncGetAll] \<or> (\<exists>ks. c = [SyncGetAll, LocalSet ks, SyncClear]))"
    by blast
  from copy_calls [of b] obtain c' where
    c': "apiCalls (migrateFromSyncToLocal_copy b) = apiCalls b @ c'"
      "c' = [] \<or> c' = [SyncGetAll] \<or> (\<exists>ks. c' = [SyncGetAll, LocalSet ks, SyncClear])"
    by blast
  have "chromeStorage (migrateFromSyncToLocal_copy b)" using ch by (simp add: copy_frame)
  from migrateFromLegacy_calls [OF this, of now] obtain l where
    l: "apiCalls (migrateFromLegacy now (migrateFromSyncToLocal_copy b))
          = apiCalls (migrateFromSyncToLocal_copy b) @ [LocalGetAll] @ l"
      "SyncGetAll \<notin> set l" "SyncClear \<notin> set l"
    by blast
  have "apiCalls (loadLegacy now b) = apiCalls b @ c' @ [LocalGetAll] @ l"
    by (simp add: loadLegacy_def l(1) c'(1))
  with c'(2) l(2,3) show "\<exists>c l. apiCalls (loadLegacy now b) = apiCalls b @ c @ [LocalGetAll] @ l
           \<and> (c = [] \<or> c = [SyncGetAll] \<or> (\<exists>ks. c = [SyncGetAll, LocalSet ks, SyncClear]))
           \<and> SyncGetAll \<notin> set l \<and> SyncClear \<notin> set l"
    by blast
qed

theorem migrations_run_in_code_order_witness:
  "apiCalls (migrateFromSyncToLocal
      \<lparr>chromeStorage = True,
       syncArea = Some [(''chatTimelineStar:u:1'', JObj [(''url'', JStr ''https://u'')]),
                        (''theme'', JStr ''dark'')],
       localArea = [(''biwhckdj'', JStr ''old'')], apiCalls = []\<rparr>)
     = [LocalGet [''biwhckdj'', ''prompts''], LocalSet [''prompts''], LocalRemove [''biwhckdj''],
        SyncGetAll, LocalSet [''theme'', ''chatTimelineStars''], SyncClear]
   \<and> localArea (migrateFromSyncToLocal
      \<lparr>chromeStorage = True,
       syncArea = Some [(''chatTimelineStar:u:1'', JObj [(''url'', JStr ''https://u'')]),
                        (''theme'', JStr ''dark'')],
       localArea = [(''biwhckdj'', JStr ''old'')], apiCalls = []\<rparr>)
     = [(''prompts'', JStr ''old''), (''theme'', JStr ''dark''),
        (''chatTimelineStars'',
           JArr [JObj [(''key'', JStr ''chatTimelineStar:u:1''), (''url'', JStr ''https://u'')]])]"
proof -
  let ?b = "\<lparr>chromeStorage = True,
       syncArea = Some [(''chatTimelineStar:u:1'', JObj [(''url'', JStr ''https://u'')]),
                        (''theme'', JStr ''dark'')],
       localArea = [(''biwhckdj'', JStr ''old'')], apiCalls = []\<rparr>"
  have "chromeStorage ?b" by simp
  with migrations_run_in_code_order [of ?b]
  have "migrateFromSyncToLocal ?b = syncToLocal (migrateLocalKeys ?b)" by blast
  then show ?thesis
    by (simp add: migrateLocalKeys_def syncToLocal_def logCall_def localSet_def localRemove_def
        syncClear_def jsTruthy_def startsWith_def isObject_def withKey_def ownProps_def Let_def)
qed

text \<open>
  C8 as stated puts the scope migration before the key rename. With \<^verbatim>\<open>biwhckdj\<close> only
  in the synced scope, the loader reads the two local keys first, finds nothing to
  rename, and then copies \<^verbatim>\<open>biwhckdj\<close> into the local scope under its old name; in the
  stated order the key would have been renamed to \<^verbatim>\<open>prompts\<close>.
\<close>

theorem rename_before_scope_counterexample:
  "apiCalls (migrateFromSyncToLocal
      \<lparr>chromeStorage = True, syncArea = Some [(''biwhckdj'', JStr ''p'')],
       localArea = [], apiCalls = []\<rparr>)
     = [LocalGet [''biwhckdj'', ''prompts''], SyncGetAll, LocalSet [''biwhckdj''], SyncClear]
   \<and> localArea (migrateFromSyncToLocal
      \<lparr>chromeStorage = True, syncArea = Some [(''biwhckdj'', JStr ''p'')],
       localArea = [], apiCalls = []\<rparr>)
     = [(''biwhckdj'', JStr ''p'')]
   \<and> localArea (migrateLocalKeys (syncToLocal
      \<lparr>chromeStorage = True, syncArea = Some [(''biwhckdj'', JStr ''p'')],
       localArea = [], apiCalls = []\<rparr>))
     = [(''prompts'', JStr ''p'')]"
  by (simp add: migrateFromSyncToLocal_def migrateLocalKeys_def syncToLocal_def logCall_def
      localSet_def localRemove_def syncClear_def jsTruthy_def startsWith_def isObject_def
      Let_def)

text \<open>Scenario D of the specification, evaluated on the record-shape migration.\<close>

lemma legacy_scenario_D:
  "localArea (migrateFromLegacy 99
      \<lparr>chromeStorage = True, syncArea = Some [],
       localArea = [(''chatTimelineStar:u:1'',
                       JObj [(''url'', JStr ''https://u''), (''urlWithoutProtocol'', JStr ''u''),
                             (''index'', JNum 1), (''question'', JStr ''q1'')]),
                    (''chatTimelineStar:u:2'',
                       JObj [(''url'', JStr ''https://u''), (''urlWithoutProtocol'', JStr ''u''),
                             (''index'', JNum 2), (''timestamp'', JNum 5)])],
       apiCalls = []\<rparr>)
   = [(''aitStars'',
        JArr [JObj [(''url'', JStr ''https://u''), (''urlWithoutProtocol'', JStr ''u''),
                    (''nodeId'', JNum 1), (''question'', JStr ''q1''), (''timestamp'', JNum 99),
                    (''folderId'', JNull), (''isFullChat'', JBool False)],
              JObj [(''url'', JStr ''https://u''), (''urlWithoutProtocol'', JStr ''u''),
                    (''nodeId'', JNum 2), (''question'', JStr []), (''timestamp'', JNum 5),
                    (''folderId'', JNull), (''isFullChat'', JBool False)]])]"
  by (simp add: migrateFromLegacy_def moveFamily_def legacyStep_def logCall_def localSet_def
      localRemove_def startsWith_def arrayOf_def getProp_def coalesce_def makeId_def toStr_def
      objField_def orElse_def jsTruthy_def showInt_def showNat.simps digitChar_def Let_def)

end
